theory Spec2Isabelle
  imports Main "HOL-Library.Word"
begin

unbundle bit_operations_syntax

section \<open>Common data\<close>

type_synonym byte = "8 word"

text \<open>
  Every exception the modelled code can raise is a value of this type; a function that
  can raise returns \<open>error + 'a\<close>, with \<open>Inl\<close> for the exception.
\<close>

datatype error =
    NoCodecFound int      \<comment> \<open>\<open>KeyError('No codec found for object type [..]')\<close>\<close>
  | KeyError string       \<comment> \<open>a dictionary lookup on a missing key\<close>
  | AssertionError        \<comment> \<open>a failed \<open>assert\<close>\<close>
  | TimeoutError          \<comment> \<open>\<open>asyncio.TimeoutError\<close> of \<open>asyncio.wait_for\<close>\<close>
  | IndexError            \<comment> \<open>indexing a buffer past its end\<close>
  | DecodeError           \<comment> \<open>protobuf's \<open>_DecodeError\<close>\<close>
  | ValueError            \<comment> \<open>\<open>bytes(l)\<close> on an element outside \<open>range(256)\<close>\<close>
  | ParseError            \<comment> \<open>\<open>json_format.ParseError\<close>\<close>
  | EncodeError           \<comment> \<open>protobuf's \<open>EncodeError\<close>\<close>
  | ConstError            \<comment> \<open>a constant field with another value\<close>
  | FieldError string     \<comment> \<open>a field that is missing, of the wrong kind or out of range\<close>
  | StreamError           \<comment> \<open>a command frame that ends too early\<close>

section \<open>The payload codec (brewblox\_codec\_spark/codec.py)\<close>

subsection \<open>Varints of the protobuf runtime\<close>

text \<open>
  \<open>internal_encoder._VarintBytes(value)\<close> collects what \<open>_EncodeVarint\<close> writes:
  \<^verbatim>\<open>
    bits = value & 0x7f
    value >>= 7
    while value:
      write(six.int2byte(0x80|bits))
      bits = value & 0x7f
      value >>= 7
    return write(six.int2byte(bits))
  \<close>
  The loop state is \<open>(bits, value)\<close>; the bytes written so far are the prefix of the result.
\<close>

function EncodeVarint_loop :: "nat \<Rightarrow> nat \<Rightarrow> byte list" where
  "EncodeVarint_loop bits v =
     (if v \<noteq> 0
      then word_of_nat (0x80 OR bits) # EncodeVarint_loop (v AND 0x7f) (drop_bit 7 v)
      else [word_of_nat bits])"
  by pat_completeness auto
termination
  by (relation "measure (\<lambda>(bits, v). v)") (auto simp: drop_bit_eq_div)

definition VarintBytes :: "nat \<Rightarrow> byte list" where
  "VarintBytes v = EncodeVarint_loop (v AND 0x7f) (drop_bit 7 v)"

text \<open>
  \<open>internal_decoder._DecodeVarint(buffer, pos)\<close>, the decoder for mask \<open>2^64 - 1\<close>:
  \<^verbatim>\<open>
    result = 0
    shift = 0
    while 1:
      b = six.indexbytes(buffer, pos)
      result |= ((b & 0x7f) << shift)
      pos += 1
      if not (b & 0x80):
        result &= mask
        return (result, pos)
      shift += 7
      if shift >= 64:
        raise _DecodeError('Too many bytes when decoding varint.')
  \<close>
  The first argument of the loop is the part of the buffer from \<open>pos\<close> on; indexing
  past the end of the buffer raises \<open>IndexError\<close>.
\<close>

fun DecodeVarint_loop :: "byte list \<Rightarrow> nat \<Rightarrow> nat \<Rightarrow> nat \<Rightarrow> error + (nat \<times> nat)" where
  "DecodeVarint_loop [] pos result shift = Inl IndexError"
| "DecodeVarint_loop (b # rest) pos result shift =
     (let result' = result OR push_bit shift (unat (b AND 0x7f));
          pos' = pos + 1
      in if b AND 0x80 = 0 then Inr (result' AND mask 64, pos')
         else if shift + 7 \<ge> 64 then Inl DecodeError
         else DecodeVarint_loop rest pos' result' (shift + 7))"

definition DecodeVarint :: "byte list \<Rightarrow> nat \<Rightarrow> error + (nat \<times> nat)" where
  "DecodeVarint buffer pos = DecodeVarint_loop (drop pos buffer) pos 0 0"

subsection \<open>Transcoders\<close>

text \<open>
  \<open>ProtobufTranscoder\<close> is generic in its class attribute \<open>_MESSAGE\<close>, a message class
  generated by protobuf. The generated modules \<open>OneWireBus_pb2\<close> and
  \<open>OneWireTempSensor_pb2\<close> are not among the source files, so a message class is a parameter
  here: the four operations on it that the transcoder calls.
  \<open>'v\<close> is the type of the \<open>dict\<close> of values, \<open>'m\<close> the type of messages. The property
  \<open>message\<close> makes a fresh message for every call, so parsing starts from the empty message
  and no state is carried between calls.
\<close>

record ('v, 'm) message_class =
  ParseDict :: "'v \<Rightarrow> error + 'm"                 \<comment> \<open>\<open>json_format.ParseDict(values, message)\<close>\<close>
  SerializeToString :: "'m \<Rightarrow> error + byte list"   \<comment> \<open>\<open>obj.SerializeToString()\<close>\<close>
  ParseFromString :: "byte list \<Rightarrow> error + 'm"     \<comment> \<open>\<open>obj.ParseFromString(data)\<close> on a fresh message\<close>
  MessageToDict :: "'m \<Rightarrow> 'v"                     \<comment> \<open>\<open>json_format.MessageToDict(obj)\<close>\<close>

text \<open>The argument of \<open>decode\<close> is \<open>Union[bytes, list]\<close>.\<close>

datatype encoded = Bytes "byte list" | IntList "int list"

text \<open>\<open>bytes(l)\<close> for a list of integers: every element must be in \<open>range(256)\<close>.\<close>

definition bytes_of_list :: "int list \<Rightarrow> error + byte list" where
  "bytes_of_list l =
     (if \<forall>i \<in> set l. 0 \<le> i \<and> i < 256 then Inr (map word_of_int l) else Inl ValueError)"

definition PT_encode :: "('v, 'm) message_class \<Rightarrow> 'v \<Rightarrow> error + byte list" where
  "PT_encode M values =
     (case ParseDict M values of
        Inl e \<Rightarrow> Inl e
      | Inr obj \<Rightarrow>
          (case SerializeToString M obj of
             Inl e \<Rightarrow> Inl e
           | Inr data \<Rightarrow>
               (let delimiter = VarintBytes (length data) in Inr (delimiter @ data))))"

text \<open>
  The slice \<open>encoded[position:position+size]\<close> is \<open>take size (drop position encoded)\<close>:
  a Python slice that reaches past the end of the buffer is cut at the end.
\<close>

definition PT_decode_bytes :: "('v, 'm) message_class \<Rightarrow> byte list \<Rightarrow> error + 'v" where
  "PT_decode_bytes M encoded =
     (case DecodeVarint encoded 0 of
        Inl e \<Rightarrow> Inl e
      | Inr (size', position) \<Rightarrow>
          (case ParseFromString M (take size' (drop position encoded)) of
             Inl e \<Rightarrow> Inl e
           | Inr obj \<Rightarrow> Inr (MessageToDict M obj)))"

definition PT_decode :: "('v, 'm) message_class \<Rightarrow> encoded \<Rightarrow> error + 'v" where
  "PT_decode M encoded =
     (case encoded of
        IntList l \<Rightarrow>
          (case bytes_of_list l of
             Inl e \<Rightarrow> Inl e
           | Inr bs \<Rightarrow> PT_decode_bytes M bs)
      | Bytes bs \<Rightarrow> PT_decode_bytes M bs)"

datatype transcoder = OneWireBusTranscoder | OneWireTempSensorTranscoder

definition TYPE_MAPPING :: "int \<rightharpoonup> transcoder" where
  "TYPE_MAPPING = [10 \<mapsto> OneWireBusTranscoder, 6 \<mapsto> OneWireTempSensorTranscoder]"

text \<open>
  \<open>_transcoder(obj_type)\<close>: the lookup in \<open>_TYPE_MAPPING\<close>, with the \<open>KeyError\<close> of a
  missing type replaced by the one that names the type.
\<close>

definition transcoder_of :: "int \<Rightarrow> error + transcoder" where
  "transcoder_of obj_type =
     (case TYPE_MAPPING obj_type of
        None \<Rightarrow> Inl (NoCodecFound obj_type)
      | Some t \<Rightarrow> Inr t)"

text \<open>
  The module functions \<open>encode\<close> and \<open>decode\<close>. The parameter \<open>MESSAGE\<close> gives each
  transcoder class its \<open>_MESSAGE\<close>.
\<close>

definition encode :: "(transcoder \<Rightarrow> ('v, 'm) message_class) \<Rightarrow> int \<Rightarrow> 'v \<Rightarrow> error + byte list" where
  "encode MESSAGE obj_type values =
     (case transcoder_of obj_type of
        Inl e \<Rightarrow> Inl e
      | Inr t \<Rightarrow> PT_encode (MESSAGE t) values)"

definition decode :: "(transcoder \<Rightarrow> ('v, 'm) message_class) \<Rightarrow> int \<Rightarrow> encoded \<Rightarrow> error + 'v" where
  "decode MESSAGE obj_type enc =
     (case transcoder_of obj_type of
        Inl e \<Rightarrow> Inl e
      | Inr t \<Rightarrow> PT_decode (MESSAGE t) enc)"

subsection \<open>The wire form as the specification words it\<close>

text \<open>
  The specification describes the length prefix as a varint: base-128 groups, a continuation
  bit on every byte but the last, least-significant group first, and the fewest bytes needed.
  \<open>is_base128_varint bs n\<close> says that \<open>bs\<close> is such a sequence for \<open>n\<close>, of any length;
  minimality is stated where it is proved.
\<close>

definition is_base128_varint :: "byte list \<Rightarrow> nat \<Rightarrow> bool" where
  "is_base128_varint bs n \<longleftrightarrow>
     bs \<noteq> [] \<and> (\<forall>b \<in> set (butlast bs). b AND 0x80 \<noteq> 0) \<and> last bs AND 0x80 = 0 \<and>
     (\<Sum>i < length bs. unat (bs ! i AND 0x7f) * 128 ^ i) = n"

text \<open>The value of a sequence of groups, by recursion on the list.\<close>

fun varint_value :: "byte list \<Rightarrow> nat" where
  "varint_value [] = 0"
| "varint_value (b # bs) = unat b mod 128 + 128 * varint_value bs"

subsection \<open>A concrete message class\<close>

text \<open>
  Modelled from the spec: the generated message classes (\<open>OneWireBus_pb2.OneWireBus\<close>,
  \<open>OneWireTempSensor_pb2.OneWireTempSensor\<close>) are not among the source files, and the
  specification fixes of a schema only that its fields are optional, that unset fields are
  left out of the decoded mapping and that the serialized form is canonical. The theorems
  about the codec hold for every message class; this one stands for the generated classes
  wherever a concrete class is needed. It is a schema with one optional unsigned field
  \<open>value\<close>, serialized as the tag byte \<open>0x08\<close> followed by the varint of the value. A message
  is \<open>None\<close> when the field is unset; the empty body parses to the message with no field set,
  and a body that is cut short or carries anything else is rejected.
\<close>

type_synonym example_values = "string \<rightharpoonup> nat"

definition example_ParseDict :: "example_values \<Rightarrow> error + nat option" where
  "example_ParseDict values =
     (if dom values \<subseteq> {''value''} then Inr (values ''value'') else Inl ParseError)"

definition example_SerializeToString :: "nat option \<Rightarrow> error + byte list" where
  "example_SerializeToString obj =
     (case obj of None \<Rightarrow> Inr [] | Some n \<Rightarrow> Inr (0x08 # VarintBytes n))"

definition example_ParseFromString :: "byte list \<Rightarrow> error + nat option" where
  "example_ParseFromString data =
     (case data of
        [] \<Rightarrow> Inr None
      | tag # rest \<Rightarrow>
          if tag = 0x08
          then (case DecodeVarint rest 0 of
                  Inl e \<Rightarrow> Inl DecodeError
                | Inr (n, pos) \<Rightarrow> if pos = length rest then Inr (Some n) else Inl DecodeError)
          else Inl DecodeError)"

definition example_MessageToDict :: "nat option \<Rightarrow> example_values" where
  "example_MessageToDict obj = (case obj of None \<Rightarrow> Map.empty | Some n \<Rightarrow> [''value'' \<mapsto> n])"

definition example_message :: "(example_values, nat option) message_class" where
  "example_message =
     \<lparr>ParseDict = example_ParseDict, SerializeToString = example_SerializeToString,
      ParseFromString = example_ParseFromString, MessageToDict = example_MessageToDict\<rparr>"

definition example_MESSAGE :: "transcoder \<Rightarrow> (example_values, nat option) message_class" where
  "example_MESSAGE t = example_message"

section \<open>The block metadata store (brewblox\_devcon\_spark/datastore.py)\<close>

subsection \<open>The TinyDB table\<close>

text \<open>
  A document is a \<open>dict\<close> with string keys. The store keeps its documents in a TinyDB
  table; of TinyDB, the operations that \<open>DataStore\<close> calls are modelled: the table is the
  list of its documents with their ids, in the order of insertion, and the last id given out.
\<close>

type_synonym 'v document = "string \<rightharpoonup> 'v"

record 'v tinydb =
  docs :: "(nat \<times> 'v document) list"
  last_id :: nat


text \<open>
  The query \<open>Query()[id_key] == id_val\<close>: a document passes when it has the key and the
  value under it equals \<open>id_val\<close>. A document without the key does not pass.
\<close>

definition query_eq :: "string \<Rightarrow> 'v \<Rightarrow> 'v document \<Rightarrow> bool" where
  "query_eq id_key id_val doc \<longleftrightarrow> doc id_key = Some id_val"

definition db_all :: "'v tinydb \<Rightarrow> 'v document list" where
  "db_all db = map snd (docs db)"

definition db_purge :: "'v tinydb \<Rightarrow> 'v tinydb" where
  "db_purge db = \<lparr>docs = [], last_id = 0\<rparr>"

definition db_search :: "('v document \<Rightarrow> bool) \<Rightarrow> 'v tinydb \<Rightarrow> 'v document list" where
  "db_search cond db = filter cond (db_all db)"

definition db_contains :: "('v document \<Rightarrow> bool) \<Rightarrow> 'v tinydb \<Rightarrow> bool" where
  "db_contains cond db \<longleftrightarrow> list_ex cond (db_all db)"

definition db_count :: "('v document \<Rightarrow> bool) \<Rightarrow> 'v tinydb \<Rightarrow> nat" where
  "db_count cond db = length (db_search cond db)"

text \<open>\<open>db.insert(document)\<close> stores a copy under the next id and returns the id.\<close>

definition db_insert :: "'v document \<Rightarrow> 'v tinydb \<Rightarrow> nat \<times> 'v tinydb" where
  "db_insert doc db =
     (let doc_id = last_id db + 1
      in (doc_id, \<lparr>docs = docs db @ [(doc_id, doc)], last_id = doc_id\<rparr>))"

fun db_insert_multiple :: "'v document list \<Rightarrow> 'v tinydb \<Rightarrow> nat list \<times> 'v tinydb" where
  "db_insert_multiple [] db = ([], db)"
| "db_insert_multiple (doc # rest) db =
     (let (doc_id, db') = db_insert doc db;
          (ids, db'') = db_insert_multiple rest db'
      in (doc_id # ids, db''))"

text \<open>
  \<open>db.update(fields, cond)\<close> calls \<open>doc.update(fields)\<close> on every document that passes:
  the fields are merged into the document, the new ones winning. It returns the ids
  of the documents it changed.
\<close>

definition db_update :: "'v document \<Rightarrow> ('v document \<Rightarrow> bool) \<Rightarrow> 'v tinydb \<Rightarrow> nat list \<times> 'v tinydb" where
  "db_update flds cond db =
     (map fst (filter (\<lambda>(i, d). cond d) (docs db)),
      db\<lparr>docs := map (\<lambda>(i, d). if cond d then (i, d ++ flds) else (i, d)) (docs db)\<rparr>)"

text \<open>\<open>db.upsert(document, cond)\<close>: update, and insert when nothing was updated.\<close>

definition db_upsert :: "'v document \<Rightarrow> ('v document \<Rightarrow> bool) \<Rightarrow> 'v tinydb \<Rightarrow> nat list \<times> 'v tinydb" where
  "db_upsert doc cond db =
     (let (updated, db') = db_update doc cond db
      in if updated \<noteq> [] then (updated, db')
         else (let (doc_id, db'') = db_insert doc db' in ([doc_id], db'')))"

subsection \<open>DataStore\<close>

text \<open>
  A database function takes the table and returns its result, or the exception it raised,
  and the table as it left it.
\<close>

type_synonym ('v, 'r) db_func = "'v tinydb \<Rightarrow> (error + 'r) \<times> 'v tinydb"

text \<open>
  The two implementations. \<open>MemoryDataStore\<close> owns its table. \<open>FileDataStore\<close> keeps the
  table in a file and hands every function to the one task that has the file open, the
  runner. Its state is that of the attributes \<open>_pending_actions\<close> and \<open>_runner\<close>:
  \<open>NotStarted\<close> when both are \<open>None\<close>, as \<open>__init__\<close> leaves them; \<open>Running\<close> after \<open>start\<close>,
  which makes a queue and the runner; \<open>Closed\<close> after \<open>close\<close>, which cancels the runner and
  keeps the queue.
\<close>

datatype runner_state = NotStarted | Running | Closed

datatype 'v datastore =
    MemoryDataStore "'v tinydb"
  | FileDataStore runner_state "'v tinydb"

fun the_db :: "'v datastore \<Rightarrow> 'v tinydb" where
  "the_db (MemoryDataStore db) = db"
| "the_db (FileDataStore st db) = db"


fun close :: "'v datastore \<Rightarrow> 'v datastore" where
  "close (MemoryDataStore db) = MemoryDataStore db"
| "close (FileDataStore Running db) = FileDataStore Closed db"
| "close (FileDataStore st db) = FileDataStore st db"

text \<open>The stores that run the functions they are given.\<close>

fun running :: "'v datastore \<Rightarrow> bool" where
  "running (MemoryDataStore db) = True"
| "running (FileDataStore st db) = (st = Running)"

definition contents :: "'v datastore \<Rightarrow> 'v document list" where
  "contents store = db_all (the_db store)"

text \<open>
  \<open>_do_with_db(func)\<close>. \<open>MemoryDataStore\<close> returns \<open>func(self._db)\<close>. \<open>FileDataStore\<close>:
  \<^verbatim>\<open>
    assert self._pending_actions is not None, f'{self} not started before functions were called'
    action = FileDataStore.Action(func, self._loop)
    await self._pending_actions.put(action)
    return await action.wait_result()
  \<close>
  Before \<open>start\<close> the assertion fails. While the runner lives it takes the action from the
  queue and calls \<open>func(db)\<close>, and the action hands the result, or the exception, back to the
  caller; the queue serialises the actions, so an action is one call of \<open>func\<close> on the
  table. After \<open>close\<close> the assertion passes, nothing takes the action from the queue, and
  \<open>wait_result\<close> raises \<open>TimeoutError\<close> after \<open>ACTION_TIMEOUT\<close>, five seconds; \<open>func\<close> is not
  called. A runner that is alive and answers later than that is not part of the model.
\<close>

fun do_with_db :: "('v, 'r) db_func \<Rightarrow> 'v datastore \<Rightarrow> (error + 'r) \<times> 'v datastore" where
  "do_with_db func (MemoryDataStore db) =
     (let (r, db') = func db in (r, MemoryDataStore db'))"
| "do_with_db func (FileDataStore NotStarted db) = (Inl AssertionError, FileDataStore NotStarted db)"
| "do_with_db func (FileDataStore Running db) =
     (let (r, db') = func db in (r, FileDataStore Running db'))"
| "do_with_db func (FileDataStore Closed db) = (Inl TimeoutError, FileDataStore Closed db)"

definition all_docs :: "'v datastore \<Rightarrow> (error + 'v document list) \<times> 'v datastore" where
  "all_docs = do_with_db (\<lambda>db. (Inr (db_all db), db))"

definition purge :: "'v datastore \<Rightarrow> (error + unit) \<times> 'v datastore" where
  "purge = do_with_db (\<lambda>db. (Inr (), db_purge db))"

definition find_by_key :: "string \<Rightarrow> 'v \<Rightarrow> 'v datastore \<Rightarrow> (error + 'v document list) \<times> 'v datastore" where
  "find_by_key id_key id_val = do_with_db (\<lambda>db. (Inr (db_search (query_eq id_key id_val) db), db))"

definition insert_doc :: "'v document \<Rightarrow> 'v datastore \<Rightarrow> (error + nat) \<times> 'v datastore" where
  "insert_doc obj = do_with_db (\<lambda>db. let (doc_id, db') = db_insert obj db in (Inr doc_id, db'))"

definition insert_multiple :: "'v document list \<Rightarrow> 'v datastore \<Rightarrow> (error + nat list) \<times> 'v datastore" where
  "insert_multiple objects =
     do_with_db (\<lambda>db. let (ids, db') = db_insert_multiple objects db in (Inr ids, db'))"



definition update :: "string \<Rightarrow> 'v \<Rightarrow> 'v document \<Rightarrow> 'v datastore \<Rightarrow> (error + nat list) \<times> 'v datastore" where
  "update id_key id_val obj =
     do_with_db (\<lambda>db. let (ids, db') = db_update obj (query_eq id_key id_val) db in (Inr ids, db'))"

text \<open>
  \<open>update_unique\<close>:
  \<^verbatim>\<open>
    def func(db):
        query = Query()[id_key] == id_val
        assert db.count(query) <= 1, ...
        if unique_key is not None:
            unique_id = obj[unique_key]
            assert not db.contains(Query()[unique_key] == unique_id), ...
        db.upsert(obj, query)
  \<close>
\<close>

definition update_unique_func ::
  "string \<Rightarrow> 'v \<Rightarrow> 'v document \<Rightarrow> string option \<Rightarrow> ('v, unit) db_func" where
  "update_unique_func id_key id_val obj unique_key db =
     (let query = query_eq id_key id_val in
      if \<not> db_count query db \<le> 1 then (Inl AssertionError, db)
      else
        (case unique_key of
           None \<Rightarrow> (let (ids, db') = db_upsert obj query db in (Inr (), db'))
         | Some k \<Rightarrow>
             (case obj k of
                None \<Rightarrow> (Inl (KeyError k), db)
              | Some unique_id \<Rightarrow>
                  if db_contains (query_eq k unique_id) db then (Inl AssertionError, db)
                  else (let (ids, db') = db_upsert obj query db in (Inr (), db')))))"

definition update_unique ::
  "string \<Rightarrow> 'v \<Rightarrow> 'v document \<Rightarrow> string option \<Rightarrow> 'v datastore \<Rightarrow> (error + unit) \<times> 'v datastore" where
  "update_unique id_key id_val obj unique_key =
     do_with_db (update_unique_func id_key id_val obj unique_key)"

text \<open>Values of the documents in the examples: the JSON values the tests store.\<close>

datatype json = JString string | JInt int | JObject "(string \<times> json) list"

text \<open>The document of the tests, and a store that holds it twice beside another.\<close>

definition test_obj :: "json document" where
  "test_obj = [''service_id'' \<mapsto> JString ''pancakes'', ''type'' \<mapsto> JInt 6,
     ''obj'' \<mapsto> JObject [(''settings'',
        JObject [(''address'', JString ''KP7p/ggAABc=''), (''offset'', JInt 0)])]]"

definition test_store :: "json datastore" where
  "test_store = MemoryDataStore
     \<lparr>docs = [(1, test_obj), (2, test_obj), (3, [''service_id'' \<mapsto> JInt 8])], last_id = 3\<rparr>"

section \<open>The command layer (brewblox\_devcon\_spark/commands.py)\<close>

text \<open>
  The module \<open>commands.py\<close> is not among the source files; its tests are. What follows is
  modelled from the specification and from what the tests in \<open>test_commands.py\<close> observe.
\<close>

subsection \<open>Values and fields\<close>

text \<open>
  Modelled from the spec: the structured mapping that a schema converts (section 4.3) is a
  \<open>dict\<close> from field names to values; a value is an unsigned integer, an object id (a
  sequence of unsigned integers) or a byte string.
\<close>

datatype field_value = IntValue nat | IdValue "nat list" | BytesValue "byte list"

type_synonym field_values = "string \<rightharpoonup> field_value"

subsection \<open>Address codec\<close>

text \<open>
  Modelled from the spec: the address codec of \<open>commands.py\<close> is missing. Section 4.1 asks
  for an encoding of a non-empty path whose decoder is the left inverse of the encoder and
  tells a single segment from a longer path; section 9 leaves the layout open and asks for
  a scheme that meets the round trip and the one observed byte sequence, \<open>[127, 7]\<close> written
  as \<open>0xFF 0x07\<close>. The test calls the first byte a nesting flag. This is that scheme: one
  byte per segment, outer containers first, with the bit \<open>0x80\<close> set on every byte but the
  last; a segment is at most 127, and the encoder rejects the empty path and a larger
  segment. The decoder returns the path and the bytes behind it; it rejects a buffer that
  ends while the flag is still set.
\<close>

fun address_encode :: "nat list \<Rightarrow> error + byte list" where
  "address_encode [] = Inl (FieldError ''object_id'')"
| "address_encode [s] =
     (if s < 128 then Inr [word_of_nat s] else Inl (FieldError ''object_id''))"
| "address_encode (s # rest) =
     (if s < 128
      then (case address_encode rest of
              Inl e \<Rightarrow> Inl e
            | Inr bs \<Rightarrow> Inr ((word_of_nat s OR 0x80) # bs))
      else Inl (FieldError ''object_id''))"

fun address_decode :: "byte list \<Rightarrow> error + (nat list \<times> byte list)" where
  "address_decode [] = Inl StreamError"
| "address_decode (b # rest) =
     (if b AND 0x80 = 0 then Inr ([unat b], rest)
      else (case address_decode rest of
              Inl e \<Rightarrow> Inl e
            | Inr (path, rest') \<Rightarrow> Inr (unat (b AND 0x7f) # path, rest')))"

subsection \<open>Command schemas\<close>

text \<open>
  Modelled from the spec: the schema table of \<open>commands.py\<close> is missing. By sections 4.3
  and 6 a request frame is the one-byte opcode followed by the schema's fields in a fixed
  order; a field is a fixed unsigned field, an address, or an opaque byte blob. The
  specification gives no widths: a fixed field is one byte here, and the blob takes the rest
  of the frame, so it can only be the last field. A schema is the list of its fields, by
  name and kind, in wire order.
\<close>

datatype field_kind = ByteField | ObjectIdField | BlobField

type_synonym schema = "(string \<times> field_kind) list"

fun build_field :: "string \<Rightarrow> field_kind \<Rightarrow> field_value \<Rightarrow> error + byte list" where
  "build_field name ByteField (IntValue n) =
     (if n < 256 then Inr [word_of_nat n] else Inl (FieldError name))"
| "build_field name ObjectIdField (IdValue path) = address_encode path"
| "build_field name BlobField (BytesValue bs) = Inr bs"
| "build_field name kind v = Inl (FieldError name)"

fun parse_field :: "field_kind \<Rightarrow> byte list \<Rightarrow> error + (field_value \<times> byte list)" where
  "parse_field ByteField [] = Inl StreamError"
| "parse_field ByteField (b # rest) = Inr (IntValue (unat b), rest)"
| "parse_field ObjectIdField bs =
     (case address_decode bs of
        Inl e \<Rightarrow> Inl e
      | Inr (path, rest) \<Rightarrow> Inr (IdValue path, rest))"
| "parse_field BlobField bs = Inr (BytesValue bs, [])"

text \<open>
  \<open>build\<close> fails on a field that is missing from the values or has a value that does not
  fit, before any byte is returned (section 7, validation errors).
\<close>

fun build_fields :: "schema \<Rightarrow> field_values \<Rightarrow> error + byte list" where
  "build_fields [] vals = Inr []"
| "build_fields ((name, kind) # fs) vals =
     (case vals name of
        None \<Rightarrow> Inl (FieldError name)
      | Some v \<Rightarrow>
          (case build_field name kind v of
             Inl e \<Rightarrow> Inl e
           | Inr bs \<Rightarrow>
               (case build_fields fs vals of
                  Inl e \<Rightarrow> Inl e
                | Inr rest \<Rightarrow> Inr (bs @ rest))))"

fun parse_fields :: "schema \<Rightarrow> byte list \<Rightarrow> error + field_values" where
  "parse_fields [] bs = Inr Map.empty"
| "parse_fields ((name, kind) # fs) bs =
     (case parse_field kind bs of
        Inl e \<Rightarrow> Inl e
      | Inr (v, rest) \<Rightarrow>
          (case parse_fields fs rest of
             Inl e \<Rightarrow> Inl e
           | Inr m \<Rightarrow> Inr (m(name \<mapsto> v))))"

text \<open>
  Modelled from the spec: the opcode is a constant first byte of the frame. The tests build
  a request from values without the key \<open>opcode\<close> and compare what is parsed from those
  bytes with the same values and \<open>opcode\<close> added: \<open>build\<close> does not need the opcode among
  the values, and rejects another opcode than its own; \<open>parse\<close> returns it.
\<close>

definition build_request :: "nat \<Rightarrow> schema \<Rightarrow> field_values \<Rightarrow> error + byte list" where
  "build_request opcode fs vals =
     (if vals ''opcode'' = None \<or> vals ''opcode'' = Some (IntValue opcode)
      then (case build_fields fs vals of
              Inl e \<Rightarrow> Inl e
            | Inr bs \<Rightarrow> Inr (word_of_nat opcode # bs))
      else Inl ConstError)"

definition parse_request :: "nat \<Rightarrow> schema \<Rightarrow> byte list \<Rightarrow> error + field_values" where
  "parse_request opcode fs bs =
     (case bs of
        [] \<Rightarrow> Inl StreamError
      | b # rest \<Rightarrow>
          if unat b \<noteq> opcode then Inl ConstError
          else (case parse_fields fs rest of
                  Inl e \<Rightarrow> Inl e
                | Inr m \<Rightarrow> Inr (m(''opcode'' \<mapsto> IntValue opcode))))"

text \<open>
  What it is for values to satisfy a request schema: every field of the schema has a value
  of its kind in range, there is no key beside the fields and \<open>opcode\<close>, and \<open>opcode\<close>, if
  given, is the command's.
\<close>

fun valid_value :: "field_kind \<Rightarrow> field_value \<Rightarrow> bool" where
  "valid_value ByteField (IntValue n) \<longleftrightarrow> n < 256"
| "valid_value ObjectIdField (IdValue path) \<longleftrightarrow> path \<noteq> [] \<and> list_all (\<lambda>s. s < 128) path"
| "valid_value BlobField (BytesValue bs) \<longleftrightarrow> True"
| "valid_value kind v \<longleftrightarrow> False"

definition fields_valid :: "schema \<Rightarrow> field_values \<Rightarrow> bool" where
  "fields_valid fs vals \<longleftrightarrow>
     list_all (\<lambda>(name, kind). case vals name of None \<Rightarrow> False | Some v \<Rightarrow> valid_value kind v) fs"

definition satisfies :: "nat \<Rightarrow> schema \<Rightarrow> field_values \<Rightarrow> bool" where
  "satisfies opcode fs vals \<longleftrightarrow>
     fields_valid fs vals \<and>
     dom vals \<subseteq> insert ''opcode'' (set (map fst fs)) \<and>
     (vals ''opcode'' = None \<or> vals ''opcode'' = Some (IntValue opcode))"

text \<open>
  A schema is well formed when its field names are distinct and differ from \<open>opcode\<close>, and
  a blob is the last field.
\<close>

fun blob_last :: "schema \<Rightarrow> bool" where
  "blob_last [] \<longleftrightarrow> True"
| "blob_last [f] \<longleftrightarrow> True"
| "blob_last ((name, kind) # fs) \<longleftrightarrow> kind \<noteq> BlobField \<and> blob_last fs"

definition wf_schema :: "schema \<Rightarrow> bool" where
  "wf_schema fs \<longleftrightarrow> distinct (map fst fs) \<and> ''opcode'' \<notin> set (map fst fs) \<and> blob_last fs"

text \<open>
  Modelled from the spec: the write-value command, opcode 2. Its request carries
  \<open>object_id\<close>, \<open>type\<close>, \<open>size\<close> and \<open>data\<close>; its response carries \<open>errcode\<close>, \<open>type\<close>,
  \<open>size\<close> and \<open>data\<close> (section 4.3). The response mapping of the tests has no \<open>opcode\<close>, so
  the response frame is the fields alone; the names of the error codes are not modelled.
\<close>

definition WriteValue_request :: schema where
  "WriteValue_request =
     [(''object_id'', ObjectIdField), (''type'', ByteField), (''size'', ByteField),
      (''data'', BlobField)]"

definition WriteValue_response :: schema where
  "WriteValue_response =
     [(''errcode'', ByteField), (''type'', ByteField), (''size'', ByteField),
      (''data'', BlobField)]"

text \<open>The arguments of the tests: \<open>write_value_args\<close> and \<open>write_value_req\<close>.\<close>

definition write_value_args :: field_values where
  "write_value_args =
     [''object_id'' \<mapsto> IdValue [127, 7], ''type'' \<mapsto> IntValue 6, ''size'' \<mapsto> IntValue 10,
      ''data'' \<mapsto> BytesValue (replicate 10 0x0F)]"

definition write_value_req :: field_values where
  "write_value_req = write_value_args(''opcode'' \<mapsto> IntValue 2)"

subsection \<open>Command\<close>

text \<open>
  Modelled from the spec: the class \<open>Command\<close> of \<open>commands.py\<close> is missing. By sections 3
  and 4.5 a command holds its two schemas, as converters between values and bytes, and up
  to four representations of one exchange; a representation that was not supplied is
  absent until it is first read, then computed from the other one of its side and kept.
  A side with no input stays absent.
\<close>

record converter =
  build :: "field_values \<Rightarrow> error + byte list"
  parse :: "byte list \<Rightarrow> error + field_values"

record command =
  request_schema :: converter
  response_schema :: converter
  enc_request :: "byte list option"
  dec_request :: "field_values option"
  enc_response :: "byte list option"
  dec_response :: "field_values option"

definition from_args :: "converter \<Rightarrow> converter \<Rightarrow> field_values \<Rightarrow> error + command" where
  "from_args req resp flds =
     (case build req flds of
        Inl e \<Rightarrow> Inl e
      | Inr bs \<Rightarrow>
          Inr \<lparr>request_schema = req, response_schema = resp,
               enc_request = Some bs, dec_request = Some flds,
               enc_response = None, dec_response = None\<rparr>)"

definition from_decoded :: "converter \<Rightarrow> converter \<Rightarrow> field_values option \<Rightarrow> field_values option \<Rightarrow> command" where
  "from_decoded req resp request response =
     \<lparr>request_schema = req, response_schema = resp,
      enc_request = None, dec_request = request,
      enc_response = None, dec_response = response\<rparr>"

definition from_encoded ::
  "converter \<Rightarrow> converter \<Rightarrow> byte list option \<Rightarrow> byte list option \<Rightarrow> command" where
  "from_encoded req resp request response =
     \<lparr>request_schema = req, response_schema = resp,
      enc_request = request, dec_request = None,
      enc_response = response, dec_response = None\<rparr>"

text \<open>
  The four properties. Each returns what is read, or the error of the conversion, and the
  command with the computed representation kept.
\<close>

definition encoded_request :: "command \<Rightarrow> (error + byte list option) \<times> command" where
  "encoded_request c =
     (case enc_request c of
        Some bs \<Rightarrow> (Inr (Some bs), c)
      | None \<Rightarrow>
          (case dec_request c of
             None \<Rightarrow> (Inr None, c)
           | Some vals \<Rightarrow>
               (case build (request_schema c) vals of
                  Inl e \<Rightarrow> (Inl e, c)
                | Inr bs \<Rightarrow> (Inr (Some bs), c\<lparr>enc_request := Some bs\<rparr>))))"

definition decoded_request :: "command \<Rightarrow> (error + field_values option) \<times> command" where
  "decoded_request c =
     (case dec_request c of
        Some vals \<Rightarrow> (Inr (Some vals), c)
      | None \<Rightarrow>
          (case enc_request c of
             None \<Rightarrow> (Inr None, c)
           | Some bs \<Rightarrow>
               (case parse (request_schema c) bs of
                  Inl e \<Rightarrow> (Inl e, c)
                | Inr vals \<Rightarrow> (Inr (Some vals), c\<lparr>dec_request := Some vals\<rparr>))))"

definition encoded_response :: "command \<Rightarrow> (error + byte list option) \<times> command" where
  "encoded_response c =
     (case enc_response c of
        Some bs \<Rightarrow> (Inr (Some bs), c)
      | None \<Rightarrow>
          (case dec_response c of
             None \<Rightarrow> (Inr None, c)
           | Some vals \<Rightarrow>
               (case build (response_schema c) vals of
                  Inl e \<Rightarrow> (Inl e, c)
                | Inr bs \<Rightarrow> (Inr (Some bs), c\<lparr>enc_response := Some bs\<rparr>))))"

definition decoded_response :: "command \<Rightarrow> (error + field_values option) \<times> command" where
  "decoded_response c =
     (case dec_response c of
        Some vals \<Rightarrow> (Inr (Some vals), c)
      | None \<Rightarrow>
          (case enc_response c of
             None \<Rightarrow> (Inr None, c)
           | Some bs \<Rightarrow>
               (case parse (response_schema c) bs of
                  Inl e \<Rightarrow> (Inl e, c)
                | Inr vals \<Rightarrow> (Inr (Some vals), c\<lparr>dec_response := Some vals\<rparr>))))"

text \<open>The converters of the write-value command.\<close>

definition WriteValue_request_schema :: converter where
  "WriteValue_request_schema =
     \<lparr>build = build_request 2 WriteValue_request, parse = parse_request 2 WriteValue_request\<rparr>"

definition WriteValue_response_schema :: converter where
  "WriteValue_response_schema =
     \<lparr>build = build_fields WriteValue_response, parse = parse_fields WriteValue_response\<rparr>"

text \<open>
  Modelled from the spec: the diagnostic helper \<open>_pretty_raw\<close> of \<open>Command\<close> is missing. By
  section 4.5 it renders a byte string as lowercase hexadecimal digits with no separators,
  two per byte with the high half first, and passes an absent value through.
\<close>

definition hex_digit :: "nat \<Rightarrow> char" where
  "hex_digit n = ''0123456789abcdef'' ! n"

definition hexlify :: "byte list \<Rightarrow> string" where
  "hexlify bs = concat (map (\<lambda>b. [hex_digit (unat b div 16), hex_digit (unat b mod 16)]) bs)"

definition pretty_raw :: "byte list option \<Rightarrow> string option" where
  "pretty_raw raw = (case raw of None \<Rightarrow> None | Some bs \<Rightarrow> Some (hexlify bs))"

text \<open>Reading the digits back, to say that the rendering loses nothing.\<close>

fun index_of :: "'a list \<Rightarrow> 'a \<Rightarrow> nat option" where
  "index_of [] c = None"
| "index_of (x # xs) c = (if x = c then Some 0 else map_option Suc (index_of xs c))"

definition hex_value :: "char \<Rightarrow> nat option" where
  "hex_value c = index_of ''0123456789abcdef'' c"

fun unhexlify :: "string \<Rightarrow> byte list option" where
  "unhexlify [] = Some []"
| "unhexlify [c] = None"
| "unhexlify (h # l # rest) =
     (case (hex_value h, hex_value l, unhexlify rest) of
        (Some a, Some b, Some bs) \<Rightarrow> Some (word_of_nat (16 * a + b) # bs)
      | _ \<Rightarrow> None)"

section \<open>Properties of the payload codec\<close>

subsection \<open>Bit operations as arithmetic\<close>

lemma and127: "(n::nat) AND 0x7f = n mod 128"
proof -
  have "(0x7f::nat) = mask 7" by (simp add: mask_eq_exp_minus_1)
  then have "n AND 0x7f = take_bit 7 n" by (simp only: take_bit_eq_mask)
  then show ?thesis by (simp add: take_bit_eq_mod)
qed

lemma or_push_bit_add:
  fixes a b :: nat
  assumes "a < 2 ^ n"
  shows "a OR push_bit n b = a + push_bit n b"
proof -
  have "a + push_bit n b = a OR push_bit n b"
  proof (rule disjunctive_add)
    fix k
    show "\<not> bit a k \<or> \<not> bit (push_bit n b) k"
    proof (cases "k < n")
      case True
      then show ?thesis by (simp add: bit_push_bit_iff)
    next
      case False
      then have "2 ^ n \<le> (2::nat) ^ k" by simp
      with assms have "a < 2 ^ k" by linarith
      then have "\<not> bit a k" by (simp add: bit_iff_odd)
      then show ?thesis by simp
    qed
  qed
  then show ?thesis by simp
qed

lemma or_push_bit_mult:
  fixes a b :: nat
  shows "a < 2 ^ n \<Longrightarrow> a OR push_bit n b = a + b * 2 ^ n"
  using or_push_bit_add [of a n b] by (simp only: push_bit_eq_mult)

lemma or128: "m < 128 \<Longrightarrow> (0x80::nat) OR m = 128 + m"
  using or_push_bit_add [of m 7 1] by (simp add: or.commute)

lemma unat_and127: "unat ((b::byte) AND 0x7f) = unat b mod 128"
  by (simp add: unsigned_and_eq and127)

lemma and128_zero: "((b::byte) AND 0x80 = 0) = (unat b < 128)"
proof -
  have "(b AND 0x80 = 0) = (\<not> bit b 7)"
    using and_exp_eq_0_iff_not_bit [of b 7] by simp
  also have "\<dots> = (\<not> bit (unat b) 7)"
    by (simp add: bit_unsigned_iff)
  also have "\<dots> = (\<not> odd (unat b div 128))"
    by (simp add: bit_iff_odd)
  also have "\<dots> = (unat b < 128)"
  proof (cases "unat b < 128")
    case True
    then show ?thesis by simp
  next
    case False
    have "unat b < 256" using unsigned_less [of b] by simp
    with False have "unat b div 128 = 1"
      by (intro div_nat_eqI) simp_all
    with False show ?thesis by simp
  qed
  finally show ?thesis .
qed

lemma and_mask64: "(x::nat) < 2 ^ 64 \<Longrightarrow> x AND mask 64 = x"
  by (simp add: take_bit_eq_mask [symmetric] take_bit_nat_eq_self)

lemma unat_byte_small: "n < 256 \<Longrightarrow> unat (word_of_nat n :: byte) = n"
  by (simp add: unat_of_nat)

subsection \<open>The varint encoder\<close>

text \<open>The loop of \<open>_EncodeVarint\<close> as a recursion on the value alone.\<close>

lemma VarintBytes_rec:
  "VarintBytes n = (if n div 128 \<noteq> 0 then word_of_nat (128 + n mod 128) # VarintBytes (n div 128)
                    else [word_of_nat (n mod 128)])"
  unfolding VarintBytes_def
  by (subst EncodeVarint_loop.simps) (simp add: and127 drop_bit_eq_div or128)

lemma VarintBytes_small: "n < 128 \<Longrightarrow> VarintBytes n = [word_of_nat n]"
  by (subst VarintBytes_rec) simp

lemma VarintBytes_large:
  "128 \<le> n \<Longrightarrow> VarintBytes n = word_of_nat (128 + n mod 128) # VarintBytes (n div 128)"
  by (subst VarintBytes_rec) (simp add: div_greater_zero_iff)

lemma VarintBytes_not_Nil: "VarintBytes n \<noteq> []"
  by (subst VarintBytes_rec) simp

lemma varint_value_sum: "varint_value bs = (\<Sum>i < length bs. unat (bs ! i AND 0x7f) * 128 ^ i)"
proof (induction bs)
  case Nil
  then show ?case by simp
next
  case (Cons b bs)
  have "(\<Sum>i < Suc (length bs). unat ((b # bs) ! i AND 0x7f) * 128 ^ i) =
        unat (b AND 0x7f) + (\<Sum>i < length bs. unat (bs ! i AND 0x7f) * 128 ^ Suc i)"
    using sum.lessThan_Suc_shift [of "\<lambda>i. unat ((b # bs) ! i AND 0x7f) * 128 ^ i" "length bs"]
    by simp
  also have "(\<Sum>i < length bs. unat (bs ! i AND 0x7f) * 128 ^ Suc i) =
        128 * (\<Sum>i < length bs. unat (bs ! i AND 0x7f) * 128 ^ i)"
    by (simp add: sum_distrib_left mult.assoc mult.left_commute)
  finally show ?case using Cons by (simp add: unat_and127)
qed

lemma is_base128_varint_alt:
  "is_base128_varint bs n \<longleftrightarrow>
     bs \<noteq> [] \<and> (\<forall>b \<in> set (butlast bs). 128 \<le> unat b) \<and> unat (last bs) < 128 \<and>
     varint_value bs = n"
  by (simp add: is_base128_varint_def and128_zero varint_value_sum not_less)

lemma is_base128_varint_VarintBytes: "is_base128_varint (VarintBytes n) n"
proof (induction n rule: less_induct)
  case (less n)
  show ?case
  proof (cases "n < 128")
    case True
    then show ?thesis
      by (simp add: VarintBytes_small is_base128_varint_alt unat_byte_small)
  next
    case False
    then have large: "128 \<le> n" by simp
    then have "n div 128 < n" by simp
    then have IH: "is_base128_varint (VarintBytes (n div 128)) (n div 128)" by (rule less.IH)
    have hd: "unat (word_of_nat (128 + n mod 128) :: byte) = 128 + n mod 128"
      by (rule unat_byte_small) simp
    from IH show ?thesis
      unfolding VarintBytes_large [OF large] is_base128_varint_alt
      by (simp add: hd VarintBytes_not_Nil del: of_nat_add)
  qed
qed

lemma varint_value_bound: "varint_value bs < 128 ^ length bs"
proof (induction bs)
  case Nil
  then show ?case by simp
next
  case (Cons b bs)
  have "unat b mod 128 < 128" by simp
  moreover from Cons have "varint_value bs + 1 \<le> 128 ^ length bs" by simp
  then have "128 * (varint_value bs + 1) \<le> 128 * 128 ^ length bs" by (rule mult_le_mono2)
  ultimately show ?case by simp
qed

lemma length_VarintBytes_le: "0 < k \<Longrightarrow> n < 128 ^ k \<Longrightarrow> length (VarintBytes n) \<le> k"
proof (induction k arbitrary: n)
  case 0
  then show ?case by simp
next
  case (Suc k)
  show ?case
  proof (cases "n < 128")
    case True
    then show ?thesis by (simp add: VarintBytes_small)
  next
    case False
    then have large: "128 \<le> n" by simp
    from Suc.prems have "n div 128 < 128 ^ k"
      by (simp add: less_mult_imp_div_less mult.commute)
    moreover from large have "0 < n div 128" by (simp add: div_greater_zero_iff)
    ultimately have "0 < k" by (cases k) auto
    with Suc.IH \<open>n div 128 < 128 ^ k\<close> have "length (VarintBytes (n div 128)) \<le> k" by simp
    then show ?thesis by (simp add: VarintBytes_large [OF large])
  qed
qed

lemma VarintBytes_minimal:
  assumes "is_base128_varint bs n"
  shows "length (VarintBytes n) \<le> length bs"
proof -
  from assms have "bs \<noteq> []" and "varint_value bs = n"
    by (simp_all add: is_base128_varint_alt)
  then have "0 < length bs" and "n < 128 ^ length bs"
    using varint_value_bound [of bs] by simp_all
  then show ?thesis by (rule length_VarintBytes_le)
qed

subsection \<open>The varint decoder reads back what the encoder wrote\<close>

lemma shifted_bound:
  fixes r g :: nat
  assumes "r < 2 ^ s" "g < 2 ^ t"
  shows "r + g * 2 ^ s < 2 ^ (s + t)"
proof -
  from assms(2) have "g + 1 \<le> 2 ^ t" by simp
  then have "(g + 1) * 2 ^ s \<le> 2 ^ t * 2 ^ s" by (rule mult_le_mono1)
  with assms(1) show ?thesis by (simp add: power_add mult.commute)
qed

lemma DecodeVarint_loop_VarintBytes:
  assumes "result < 2 ^ shift" "n < 2 ^ (64 - shift)" "shift \<le> 64"
  shows "DecodeVarint_loop (VarintBytes n @ rest) pos result shift =
           Inr (result + n * 2 ^ shift, pos + length (VarintBytes n))"
  using assms
proof (induction n arbitrary: pos result shift rule: less_induct)
  case (less n)
  show ?case
  proof (cases "n < 128")
    case True
    have b: "unat (word_of_nat n :: byte) = n"
      using True by (simp add: unat_byte_small)
    have "result + n * 2 ^ shift < 2 ^ (shift + (64 - shift))"
      using less.prems(1,2) by (rule shifted_bound)
    with less.prems(3) have "result + n * 2 ^ shift < 2 ^ 64" by simp
    then show ?thesis
      using True less.prems(1)
      by (simp add: VarintBytes_small and128_zero unat_and127 b or_push_bit_mult and_mask64)
  next
    case False
    then have large: "128 \<le> n" by simp
    let ?b = "word_of_nat (128 + n mod 128) :: byte"
    have b: "unat ?b = 128 + n mod 128"
      by (rule unat_byte_small) simp
    have "(2::nat) ^ 7 \<le> n" using large by simp
    also have "n < 2 ^ (64 - shift)" by (rule less.prems)
    finally have "(2::nat) ^ 7 < 2 ^ (64 - shift)" .
    then have "7 < 64 - shift" by (rule power_less_imp_less_exp [rotated]) simp
    then have sh: "shift + 7 < 64" by simp
    let ?r = "result + n mod 128 * 2 ^ shift"
    have r: "?r < 2 ^ (shift + 7)"
      by (rule shifted_bound) (use less.prems(1) in simp_all)
    have "64 - shift = (64 - (shift + 7)) + 7" using sh by simp
    then have "(2::nat) ^ (64 - shift) = 2 ^ (64 - (shift + 7)) * 2 ^ 7"
      by (simp only: power_add)
    with less.prems(2) have "n < 2 ^ (64 - (shift + 7)) * 2 ^ 7" by simp
    then have d: "n div 128 < 2 ^ (64 - (shift + 7))"
      by (simp add: less_mult_imp_div_less)
    have "n div 128 < n" using large by simp
    from less.IH [OF this r d] sh
    have IH: "DecodeVarint_loop (VarintBytes (n div 128) @ rest) (pos + 1) ?r (shift + 7) =
            Inr (?r + n div 128 * 2 ^ (shift + 7), pos + 1 + length (VarintBytes (n div 128)))"
      by simp
    have "n div 128 * 2 ^ (shift + 7) = 128 * (n div 128) * 2 ^ shift"
      by (simp add: power_add)
    then have "?r + n div 128 * 2 ^ (shift + 7) =
        result + (n mod 128 * 2 ^ shift + 128 * (n div 128) * 2 ^ shift)"
      by simp
    also have "\<dots> = result + (n mod 128 + 128 * (n div 128)) * 2 ^ shift"
      by (simp only: add_mult_distrib)
    also have "n mod 128 + 128 * (n div 128) = n" by simp
    finally have eq: "?r + n div 128 * 2 ^ (shift + 7) = result + n * 2 ^ shift" .
    have nz: "\<not> unat ?b < 128" by (simp only: b)
    have m: "unat ?b mod 128 = n mod 128" by (simp only: b) simp
    show ?thesis
      unfolding VarintBytes_large [OF large]
      using sh IH eq less.prems(1)
      by (simp add: and128_zero nz unat_and127 m or_push_bit_mult del: of_nat_add)
  qed
qed

lemma DecodeVarint_VarintBytes:
  "n < 2 ^ 64 \<Longrightarrow> DecodeVarint (VarintBytes n @ rest) 0 = Inr (n, length (VarintBytes n))"
  using DecodeVarint_loop_VarintBytes [of 0 0 n rest 0] by (simp add: DecodeVarint_def)

text \<open>
  A prefix with no terminating byte is an error: the loop runs off the end of the buffer
  (\<open>IndexError\<close>) when the buffer has fewer than ten bytes, and gives up at the tenth
  byte (\<open>DecodeError\<close>) otherwise.
\<close>

lemma DecodeVarint_loop_unterminated:
  assumes "\<forall>b \<in> set (take k bs). b AND 0x80 \<noteq> 0"
      and "0 < k" and "64 \<le> shift + 7 * k" and "shift + 7 * (k - 1) < 64"
  shows "DecodeVarint_loop bs pos result shift =
           Inl (if length bs < k then IndexError else DecodeError)"
  using assms
proof (induction bs arbitrary: k pos result shift)
  case Nil
  then show ?case by simp
next
  case (Cons b rest)
  from Cons.prems(2) obtain k' where k': "k = Suc k'" by (cases k) auto
  with Cons.prems(1) have cont: "b AND 0x80 \<noteq> 0"
    and rest: "\<forall>b \<in> set (take k' rest). b AND 0x80 \<noteq> 0"
    by simp_all
  show ?case
  proof (cases "64 \<le> shift + 7")
    case True
    with Cons.prems(4) k' have "k' = 0" by simp
    with cont True k' show ?thesis by simp
  next
    case False
    with Cons.prems(3) k' have 1: "0 < k'" by (cases k') auto
    from Cons.prems(3) k' have 2: "64 \<le> (shift + 7) + 7 * k'" by simp
    from Cons.prems(4) k' 1 have 3: "(shift + 7) + 7 * (k' - 1) < 64" by (cases k') auto
    from Cons.IH [OF rest 1 2 3] cont False k' show ?thesis by simp
  qed
qed

lemma DecodeVarint_unterminated:
  assumes "\<forall>b \<in> set (take 10 encoded). b AND 0x80 \<noteq> 0"
  shows "DecodeVarint encoded 0 = Inl (if length encoded < 10 then IndexError else DecodeError)"
  unfolding DecodeVarint_def
  using DecodeVarint_loop_unterminated [where k = 10 and bs = encoded and shift = 0
      and pos = 0 and result = 0] assms
  by simp

subsection \<open>encode and decode\<close>

lemma transcoder_of_Some: "TYPE_MAPPING obj_type = Some t \<Longrightarrow> transcoder_of obj_type = Inr t"
  by (simp add: transcoder_of_def)

lemma PT_decode_bytes_frame:
  assumes "length body < 2 ^ 64"
  shows "PT_decode_bytes M (VarintBytes (length body) @ body @ trailing) =
           (case ParseFromString M body of Inl e \<Rightarrow> Inl e | Inr obj \<Rightarrow> Inr (MessageToDict M obj))"
  using DecodeVarint_VarintBytes [OF assms, of "body @ trailing"]
  by (simp add: PT_decode_bytes_def)

lemmas example_defs = example_MESSAGE_def example_message_def example_ParseDict_def
  example_SerializeToString_def example_ParseFromString_def example_MessageToDict_def

text \<open>
  C3. For a registered type and values that the schema accepts, \<open>encode\<close> returns the
  serialized body behind the varint of its length; that prefix is a base-128 varint of the
  length, least-significant group first, and no such varint of the length is shorter.
\<close>

theorem encode_varint_prefixed:
  assumes "TYPE_MAPPING obj_type = Some t"
      and "ParseDict (MESSAGE t) values = Inr obj"
      and "SerializeToString (MESSAGE t) obj = Inr body"
  shows "encode MESSAGE obj_type values = Inr (VarintBytes (length body) @ body) \<and>
         is_base128_varint (VarintBytes (length body)) (length body) \<and>
         (\<forall>bs. is_base128_varint bs (length body) \<longrightarrow> length (VarintBytes (length body)) \<le> length bs)"
proof (intro conjI allI impI)
  show "encode MESSAGE obj_type values = Inr (VarintBytes (length body) @ body)"
    using assms by (simp add: encode_def transcoder_of_Some PT_encode_def)
  show "is_base128_varint (VarintBytes (length body)) (length body)"
    by (rule is_base128_varint_VarintBytes)
  show "length (VarintBytes (length body)) \<le> length bs" if "is_base128_varint bs (length body)" for bs
    using that by (rule VarintBytes_minimal)
qed

theorem encode_varint_prefixed_witness:
  "encode example_MESSAGE 6 [''value'' \<mapsto> 300] = Inr ([3] @ [8, 0xAC, 2]) \<and>
   VarintBytes 3 = [3] \<and>
   is_base128_varint [3] 3 \<and>
   is_base128_varint [0x83, 0] 3 \<and> length [3 :: byte] \<le> length [0x83, 0 :: byte]"
proof -
  have t: "TYPE_MAPPING 6 = Some OneWireTempSensorTranscoder"
    by (simp add: TYPE_MAPPING_def)
  have p: "ParseDict (example_MESSAGE OneWireTempSensorTranscoder) [''value'' \<mapsto> 300] = Inr (Some 300)"
    by (simp add: example_defs)
  have s: "SerializeToString (example_MESSAGE OneWireTempSensorTranscoder) (Some 300) = Inr [8, 0xAC, 2]"
    by (simp add: example_defs VarintBytes_small VarintBytes_large)
  have v: "VarintBytes 3 = [3]" by (simp add: VarintBytes_small)
  have l: "length [8, 0xAC, 2 :: byte] = 3" by simp
  have w: "is_base128_varint [0x83, 0] 3" by (simp add: is_base128_varint_alt)
  from encode_varint_prefixed [where MESSAGE = example_MESSAGE, OF t p s, unfolded l v] w
  show ?thesis by (simp add: v)
qed

text \<open>
  C4, the claim as stated fails. The buffer \<open>[5]\<close> declares five body bytes and holds none;
  \<open>decode\<close> parses the empty slice and returns the empty mapping instead of raising.
\<close>

theorem decode_truncated_counterexample:
  "DecodeVarint [5] 0 = Inr (5, 1) \<and> length (drop 1 [5 :: byte]) < 5 \<and>
   decode example_MESSAGE 6 (Bytes [5]) = Inr Map.empty"
  by (simp add: decode_def transcoder_of_def TYPE_MAPPING_def PT_decode_def PT_decode_bytes_def
      DecodeVarint_def example_defs and_mask64)

text \<open>
  C4 as amended. For a registered type: (1) a frame, the varint of the body's length followed
  by the body, decodes to the parsed body whatever bytes follow it; (2) a length prefix with
  no terminating byte among the first ten bytes of the input makes \<open>decode\<close> raise:
  \<open>IndexError\<close> when the input ends before a tenth byte, \<open>DecodeError\<close> when it has ten
  bytes or more; (3) otherwise \<open>decode\<close> parses the slice of at most \<open>n\<close> bytes after the
  prefix, which is shorter than \<open>n\<close> when the input ends early, and raises only when the
  schema's parser rejects that slice.
\<close>

theorem decode_frame:
  assumes "TYPE_MAPPING obj_type = Some t"
  shows "(length body < 2 ^ 64 \<longrightarrow>
            decode MESSAGE obj_type (Bytes (VarintBytes (length body) @ body @ trailing)) =
              (case ParseFromString (MESSAGE t) body of
                 Inl e \<Rightarrow> Inl e
               | Inr obj \<Rightarrow> Inr (MessageToDict (MESSAGE t) obj))) \<and>
         ((\<forall>b \<in> set (take 10 encoded). b AND 0x80 \<noteq> 0) \<longrightarrow>
            decode MESSAGE obj_type (Bytes encoded) =
              Inl (if length encoded < 10 then IndexError else DecodeError)) \<and>
         (DecodeVarint encoded 0 = Inr (n, position) \<longrightarrow>
            decode MESSAGE obj_type (Bytes encoded) =
              (case ParseFromString (MESSAGE t) (take n (drop position encoded)) of
                 Inl e \<Rightarrow> Inl e
               | Inr obj \<Rightarrow> Inr (MessageToDict (MESSAGE t) obj)))"
proof (intro conjI impI)
  have d: "decode MESSAGE obj_type (Bytes bs) = PT_decode_bytes (MESSAGE t) bs" for bs
    using assms by (simp add: decode_def transcoder_of_Some PT_decode_def)
  show "decode MESSAGE obj_type (Bytes (VarintBytes (length body) @ body @ trailing)) =
      (case ParseFromString (MESSAGE t) body of
         Inl e \<Rightarrow> Inl e
       | Inr obj \<Rightarrow> Inr (MessageToDict (MESSAGE t) obj))"
    if "length body < 2 ^ 64"
    using that by (simp only: d PT_decode_bytes_frame)
  show "decode MESSAGE obj_type (Bytes encoded) =
      Inl (if length encoded < 10 then IndexError else DecodeError)"
    if "\<forall>b \<in> set (take 10 encoded). b AND 0x80 \<noteq> 0"
    using DecodeVarint_unterminated [OF that] by (simp add: d PT_decode_bytes_def)
  show "decode MESSAGE obj_type (Bytes encoded) =
      (case ParseFromString (MESSAGE t) (take n (drop position encoded)) of
         Inl e \<Rightarrow> Inl e
       | Inr obj \<Rightarrow> Inr (MessageToDict (MESSAGE t) obj))"
    if "DecodeVarint encoded 0 = Inr (n, position)"
    using that by (simp add: d PT_decode_bytes_def)
qed

theorem decode_frame_witness:
  "decode example_MESSAGE 6 (Bytes ([2] @ [8, 7] @ [0xAA, 0xBB])) = Inr [''value'' \<mapsto> 7] \<and>
   decode example_MESSAGE 6 (Bytes [0x80, 0x81]) = Inl IndexError \<and>
   decode example_MESSAGE 6 (Bytes (replicate 10 0xFF @ [0x01])) = Inl DecodeError \<and>
   decode example_MESSAGE 6 (Bytes [3, 8, 7]) = Inr [''value'' \<mapsto> 7]"
proof -
  have t: "TYPE_MAPPING 6 = Some OneWireTempSensorTranscoder"
    by (simp add: TYPE_MAPPING_def)
  have v: "VarintBytes (length [8, 7 :: byte]) = [2]" by (simp add: VarintBytes_small)
  have l: "length [8, 7 :: byte] < 2 ^ 64" by simp
  have c: "\<forall>b \<in> set (take 10 [0x80, 0x81 :: byte]). b AND 0x80 \<noteq> 0" by simp
  have dv: "DecodeVarint [3, 8, 7] 0 = Inr (3, 1)" by (simp add: DecodeVarint_def and_mask64)
  have p: "ParseFromString (example_MESSAGE OneWireTempSensorTranscoder) [8, 7] = Inr (Some 7)"
    by (simp add: example_defs DecodeVarint_def and_mask64)
  have m: "MessageToDict (example_MESSAGE OneWireTempSensorTranscoder) (Some 7) = [''value'' \<mapsto> 7]"
    by (simp add: example_defs)
  note th = decode_frame [where MESSAGE = example_MESSAGE, OF t]
  from th [where body = "[8, 7]" and trailing = "[0xAA, 0xBB]"] l
  have 1: "decode example_MESSAGE 6 (Bytes ([2] @ [8, 7] @ [0xAA, 0xBB])) = Inr [''value'' \<mapsto> 7]"
    unfolding v by (simp add: p m)
  from th [where encoded = "[0x80, 0x81]"] c
  have 2: "decode example_MESSAGE 6 (Bytes [0x80, 0x81]) = Inl IndexError" by simp
  have c': "\<forall>b \<in> set (take 10 (replicate 10 0xFF @ [0x01 :: byte])). b AND 0x80 \<noteq> 0" by simp
  from th [where encoded = "replicate 10 0xFF @ [0x01]"] c'
  have 4: "decode example_MESSAGE 6 (Bytes (replicate 10 0xFF @ [0x01])) = Inl DecodeError"
    by simp
  from th [where encoded = "[3, 8, 7]" and n = 3 and position = 1] dv
  have 3: "decode example_MESSAGE 6 (Bytes [3, 8, 7]) = Inr [''value'' \<mapsto> 7]"
    by (simp add: p m)
  from 1 2 4 3 show ?thesis by blast
qed

text \<open>
  C5. For a type that is not registered, that is any type but 6 and 10, \<open>encode\<close> and
  \<open>decode\<close> raise the lookup error that names the type, whatever the other argument is.
\<close>

theorem unknown_type_raises:
  assumes "obj_type \<noteq> 6" and "obj_type \<noteq> 10"
  shows "encode MESSAGE obj_type values = Inl (NoCodecFound obj_type) \<and>
         decode MESSAGE obj_type enc = Inl (NoCodecFound obj_type)"
  using assms by (simp add: encode_def decode_def transcoder_of_def TYPE_MAPPING_def)

theorem unknown_type_raises_witness:
  "(999 :: int) \<noteq> 6 \<and> (999 :: int) \<noteq> 10 \<and>
   encode example_MESSAGE 999 [''value'' \<mapsto> 1] = Inl (NoCodecFound 999) \<and>
   decode example_MESSAGE 999 (Bytes [2, 8, 7]) = Inl (NoCodecFound 999)"
  using unknown_type_raises [of 999 example_MESSAGE "[''value'' \<mapsto> 1]" "Bytes [2, 8, 7]"]
  by simp

text \<open>
  C6. For a list of integers that all fit a byte, \<open>bytes(l)\<close> succeeds and \<open>decode\<close> of the
  list is \<open>decode\<close> of those bytes, for every type: the same mapping or the same error.
\<close>

theorem decode_list_eq_bytes:
  assumes "\<forall>i \<in> set l. 0 \<le> i \<and> i < 256"
  shows "bytes_of_list l = Inr (map word_of_int l) \<and>
         decode MESSAGE obj_type (IntList l) = decode MESSAGE obj_type (Bytes (map word_of_int l))"
  using assms by (simp add: decode_def PT_decode_def bytes_of_list_def split: sum.splits)

theorem decode_list_eq_bytes_witness:
  "list_all (\<lambda>i. 0 \<le> i \<and> i < 256) [2, 8, 7 :: int] \<and>
   decode example_MESSAGE 6 (IntList [2, 8, 7]) = decode example_MESSAGE 6 (Bytes [2, 8, 7]) \<and>
   decode example_MESSAGE 6 (IntList [2, 8, 7]) = Inr [''value'' \<mapsto> 7]"
proof -
  have h: "\<forall>i \<in> set [2, 8, 7 :: int]. 0 \<le> i \<and> i < 256" by simp
  have b: "decode example_MESSAGE 6 (Bytes [2, 8, 7]) = Inr [''value'' \<mapsto> 7]"
    by (simp add: decode_def transcoder_of_def TYPE_MAPPING_def PT_decode_def PT_decode_bytes_def
      DecodeVarint_def example_defs and_mask64)
  from decode_list_eq_bytes [OF h, of example_MESSAGE 6] h b show ?thesis by simp
qed

text \<open>
  X6. Decoding reads back what encoding wrote: for a registered type, when the values are
  accepted and serialized to a body shorter than \<open>2^64\<close> bytes that the message class parses,
  \<open>decode\<close> of the bytes that \<open>encode\<close> returned is the mapping of the parsed body.
\<close>

theorem decode_encode:
  assumes "TYPE_MAPPING obj_type = Some t"
      and "ParseDict (MESSAGE t) values = Inr obj"
      and "SerializeToString (MESSAGE t) obj = Inr body"
      and "length body < 2 ^ 64"
      and "ParseFromString (MESSAGE t) body = Inr obj'"
  shows "\<exists>enc. encode MESSAGE obj_type values = Inr enc \<and>
           decode MESSAGE obj_type (Bytes enc) = Inr (MessageToDict (MESSAGE t) obj')"
proof -
  have e: "encode MESSAGE obj_type values = Inr (VarintBytes (length body) @ body)"
    using assms(1-3) by (simp add: encode_def transcoder_of_Some PT_encode_def)
  have "decode MESSAGE obj_type (Bytes (VarintBytes (length body) @ body @ [])) =
          PT_decode_bytes (MESSAGE t) (VarintBytes (length body) @ body @ [])"
    using assms(1) by (simp add: decode_def transcoder_of_Some PT_decode_def)
  also have "\<dots> = Inr (MessageToDict (MESSAGE t) obj')"
    using assms(4,5) by (simp only: PT_decode_bytes_frame) simp
  finally show ?thesis using e by simp
qed

theorem decode_encode_witness:
  "encode example_MESSAGE 6 [''value'' \<mapsto> 300] = Inr [3, 8, 0xAC, 2] \<and>
   decode example_MESSAGE 6 (Bytes [3, 8, 0xAC, 2]) = Inr [''value'' \<mapsto> 300]"
proof -
  have t: "TYPE_MAPPING 6 = Some OneWireTempSensorTranscoder"
    by (simp add: TYPE_MAPPING_def)
  have p: "ParseDict (example_MESSAGE OneWireTempSensorTranscoder) [''value'' \<mapsto> 300] = Inr (Some 300)"
    by (simp add: example_defs)
  have s: "SerializeToString (example_MESSAGE OneWireTempSensorTranscoder) (Some 300) = Inr [8, 0xAC, 2]"
    by (simp add: example_defs VarintBytes_small VarintBytes_large)
  have l: "length [8, 0xAC, 2 :: byte] < 2 ^ 64" by simp
  have d: "DecodeVarint [0xAC, 2] 0 = Inr (300, 2)"
    using DecodeVarint_VarintBytes [of 300 "[]"] by (simp add: VarintBytes_small VarintBytes_large)
  have q: "ParseFromString (example_MESSAGE OneWireTempSensorTranscoder) [8, 0xAC, 2] = Inr (Some 300)"
    by (simp add: example_defs d)
  have e: "encode example_MESSAGE 6 [''value'' \<mapsto> 300] = Inr [3, 8, 0xAC, 2]"
    using t p s by (simp add: encode_def transcoder_of_Some PT_encode_def VarintBytes_small)
  from decode_encode [where MESSAGE = example_MESSAGE, OF t p s l q] e
  show ?thesis by (simp add: example_defs)
qed

section \<open>Properties of the metadata store\<close>

lemma db_contains_iff:
  "db_contains (query_eq k v) db \<longleftrightarrow> (\<exists>d \<in> set (db_all db). d k = Some v)"
  by (simp add: db_contains_def list_ex_iff query_eq_def)

lemma db_all_insert: "db_all (snd (db_insert obj db)) = db_all db @ [obj]"
  by (simp add: db_insert_def db_all_def Let_def)


lemma do_with_db_Memory:
  "do_with_db func (MemoryDataStore db) = (fst (func db), MemoryDataStore (snd (func db)))"
  by (simp add: case_prod_beta)

lemma do_with_db_File:
  "do_with_db func (FileDataStore st db) =
     (case st of
        NotStarted \<Rightarrow> (Inl AssertionError, FileDataStore st db)
      | Running \<Rightarrow> (fst (func db), FileDataStore st (snd (func db)))
      | Closed \<Rightarrow> (Inl TimeoutError, FileDataStore st db))"
  by (cases st) (simp_all add: case_prod_beta)


lemma do_with_db_running:
  "running store \<Longrightarrow>
     fst (do_with_db func store) = fst (func (the_db store)) \<and>
     the_db (snd (do_with_db func store)) = snd (func (the_db store)) \<and>
     running (snd (do_with_db func store))"
  by (cases store)
    (simp_all add: do_with_db_Memory do_with_db_File del: do_with_db.simps
      split: runner_state.splits)

lemma do_with_db_unchanged:
  assumes "snd (func (the_db store)) = the_db store"
  shows "snd (do_with_db func store) = store"
  using assms
  by (cases store)
    (simp_all add: do_with_db_Memory do_with_db_File del: do_with_db.simps
      split: runner_state.splits)

lemma do_with_db_error_unchanged:
  assumes "\<And>db. isl (fst (func db)) \<Longrightarrow> snd (func db) = db"
      and "isl (fst (do_with_db func store))"
  shows "snd (do_with_db func store) = store"
  using assms
  by (cases store)
    (auto simp: do_with_db_Memory do_with_db_File simp del: do_with_db.simps
      split: runner_state.splits)




lemma db_all_update:
  "db_all (snd (db_update flds cond db)) = map (\<lambda>d. if cond d then d ++ flds else d) (db_all db)"
  by (simp add: db_update_def db_all_def comp_def case_prod_beta if_distrib cong: if_cong)

lemma fst_db_update_Nil_iff:
  "fst (db_update flds cond db) = [] \<longleftrightarrow> filter cond (db_all db) = []"
  by (simp add: db_update_def db_all_def filter_empty_conv case_prod_beta)

lemma db_insert_multiple_all:
  "db_all (snd (db_insert_multiple objects db)) = db_all db @ objects"
proof (induction objects arbitrary: db)
  case Nil
  then show ?case by simp
next
  case (Cons doc rest)
  have "db_all (snd (db_insert_multiple (doc # rest) db)) =
        db_all (snd (db_insert_multiple rest (snd (db_insert doc db))))"
    by (simp add: case_prod_beta Let_def)
  also have "\<dots> = db_all (snd (db_insert doc db)) @ rest" by (rule Cons.IH)
  finally show ?case by (simp add: db_all_insert)
qed

lemma db_insert_multiple_ids:
  "fst (db_insert_multiple objects db) = [last_id db + 1 ..< last_id db + 1 + length objects]"
proof (induction objects arbitrary: db)
  case Nil
  then show ?case by simp
next
  case (Cons doc rest)
  have l: "last_id (snd (db_insert doc db)) = last_id db + 1"
    and f: "fst (db_insert doc db) = last_id db + 1"
    by (simp_all add: db_insert_def Let_def)
  have "fst (db_insert_multiple (doc # rest) db) =
        fst (db_insert doc db) # fst (db_insert_multiple rest (snd (db_insert doc db)))"
    by (simp add: case_prod_beta Let_def)
  also have "\<dots> = (last_id db + 1) # [last_id db + 1 + 1 ..< last_id db + 1 + 1 + length rest]"
    by (simp only: Cons.IH l f)
  also have "\<dots> = [last_id db + 1 ..< last_id db + 1 + length (doc # rest)]"
    using upt_conv_Cons [of "last_id db + 1" "last_id db + 1 + length (doc # rest)"]
    by (simp del: upt_Suc)
  finally show ?case .
qed

text \<open>
  X1. In a running store, \<open>insert\<close> returns the next document id and appends the document;
  \<open>find_by_key\<close> afterwards returns the documents that had the value under the key before,
  followed by the new one if it has it, and changes nothing.
\<close>

theorem insert_then_find_by_key:
  assumes "running store"
  shows "fst (insert_doc obj store) = Inr (last_id (the_db store) + 1) \<and>
         contents (snd (insert_doc obj store)) = contents store @ [obj] \<and>
         find_by_key id_key id_val (snd (insert_doc obj store)) =
           (Inr (filter (\<lambda>d. d id_key = Some id_val) (contents store) @
                 (if obj id_key = Some id_val then [obj] else [])),
            snd (insert_doc obj store))"
proof -
  let ?f = "\<lambda>db. let (doc_id, db') = db_insert obj db in (Inr doc_id :: error + nat, db')"
  let ?s = "snd (insert_doc obj store)"
  note d = do_with_db_running [OF assms, of ?f]
  have 1: "fst (insert_doc obj store) = Inr (last_id (the_db store) + 1)"
    using d by (simp add: insert_doc_def db_insert_def Let_def)
  have db: "the_db ?s = snd (db_insert obj (the_db store))" and r: "running ?s"
    using d by (simp_all add: insert_doc_def case_prod_beta Let_def)
  then have 2: "contents ?s = contents store @ [obj]"
    by (simp add: contents_def db_all_insert)
  let ?g = "\<lambda>db. (Inr (db_search (query_eq id_key id_val) db) :: error + 'a document list, db)"
  note e = do_with_db_running [OF r, of ?g]
  have "snd (do_with_db ?g ?s) = ?s" by (rule do_with_db_unchanged) simp
  moreover have "fst (do_with_db ?g ?s) =
      Inr (filter (\<lambda>d. d id_key = Some id_val) (contents store) @
           (if obj id_key = Some id_val then [obj] else []))"
    using e 2 by (simp add: db_search_def contents_def query_eq_def [abs_def])
  ultimately have 3: "find_by_key id_key id_val ?s =
           (Inr (filter (\<lambda>d. d id_key = Some id_val) (contents store) @
                 (if obj id_key = Some id_val then [obj] else [])), ?s)"
    by (simp add: find_by_key_def prod_eq_iff)
  from 1 2 3 show ?thesis by blast
qed

text \<open>
  X2. In a running store, \<open>insert_multiple\<close> appends the documents in their order and
  returns their consecutive ids.
\<close>

theorem insert_multiple_appends:
  assumes "running store"
  shows "fst (insert_multiple objects store) =
           Inr [last_id (the_db store) + 1 ..< last_id (the_db store) + 1 + length objects] \<and>
         contents (snd (insert_multiple objects store)) = contents store @ objects"
proof -
  let ?f = "\<lambda>db. let (ids, db') = db_insert_multiple objects db in (Inr ids :: error + nat list, db')"
  note d = do_with_db_running [OF assms, of ?f]
  from d show ?thesis
    by (simp add: insert_multiple_def contents_def case_prod_beta Let_def
        db_insert_multiple_all db_insert_multiple_ids)
qed

text \<open>
  X3. In a running store, \<open>update\<close> merges \<open>obj\<close> into every document whose value under
  \<open>id_key\<close> is \<open>id_val\<close>, the fields of \<open>obj\<close> winning, and leaves the others as they are.
\<close>

theorem update_merges:
  assumes "running store"
  shows "contents (snd (update id_key id_val obj store)) =
           map (\<lambda>d. if d id_key = Some id_val then d ++ obj else d) (contents store)"
proof -
  let ?f = "\<lambda>db. let (ids, db') = db_update obj (query_eq id_key id_val) db
                 in (Inr ids :: error + nat list, db')"
  note d = do_with_db_running [OF assms, of ?f]
  from d show ?thesis
    by (simp add: update_def contents_def case_prod_beta Let_def db_all_update query_eq_def)
qed

text \<open>X4. In a running store, \<open>purge\<close> leaves no document and resets the ids.\<close>

theorem purge_empties:
  assumes "running store"
  shows "fst (purge store) = Inr () \<and> contents (snd (purge store)) = [] \<and>
         last_id (the_db (snd (purge store))) = 0"
  using do_with_db_running [OF assms, of "\<lambda>db. (Inr (), db_purge db)"]
  by (simp add: purge_def contents_def db_purge_def db_all_def)

lemma db_count_eq:
  "db_count (query_eq k v) db = length (filter (\<lambda>d. d k = Some v) (db_all db))"
  by (simp add: db_count_def db_search_def query_eq_def [abs_def])

lemma db_all_upsert:
  "db_all (snd (db_upsert obj cond db)) =
     (if filter cond (db_all db) = [] then db_all db @ [obj]
      else map (\<lambda>d. if cond d then d ++ obj else d) (db_all db))"
proof (cases "filter cond (db_all db) = []")
  case True
  then have n: "fst (db_update obj cond db) = []" by (simp add: fst_db_update_Nil_iff)
  from True have "\<forall>d \<in> set (db_all db). \<not> cond d" by (simp add: filter_empty_conv)
  then have "map (\<lambda>d. if cond d then d ++ obj else d) (db_all db) = db_all db"
    by (simp add: map_idI)
  with n True show ?thesis
    by (simp add: db_upsert_def case_prod_beta Let_def db_all_insert db_all_update)
next
  case False
  then have "fst (db_update obj cond db) \<noteq> []" by (simp add: fst_db_update_Nil_iff)
  with False show ?thesis
    by (simp add: db_upsert_def case_prod_beta Let_def db_all_update)
qed

lemma update_unique_func_error_unchanged:
  "isl (fst (update_unique_func id_key id_val obj unique_key db)) \<Longrightarrow>
     snd (update_unique_func id_key id_val obj unique_key db) = db"
  by (auto simp: update_unique_func_def Let_def case_prod_beta split: option.splits if_splits)

text \<open>
  X5. In a running store, \<open>update_unique\<close> raises \<open>AssertionError\<close> and changes nothing when
  more than one document has \<open>id_val\<close> under \<open>id_key\<close>, or when a unique key is given and some
  stored document has the value of \<open>obj\<close> under it; with no unique key and at most one match
  it merges \<open>obj\<close> into the match, or appends \<open>obj\<close> when there is none. For every store,
  an error leaves the store unchanged.
\<close>

theorem update_unique_checked:
  "(running store \<longrightarrow>
      (1 < length (filter (\<lambda>d. d id_key = Some id_val) (contents store)) \<longrightarrow>
         update_unique id_key id_val obj unique_key store = (Inl AssertionError, store)) \<and>
      (\<forall>k u. length (filter (\<lambda>d. d id_key = Some id_val) (contents store)) \<le> 1 \<and>
             unique_key = Some k \<and> obj k = Some u \<and> (\<exists>d \<in> set (contents store). d k = Some u) \<longrightarrow>
         update_unique id_key id_val obj unique_key store = (Inl AssertionError, store)) \<and>
      (length (filter (\<lambda>d. d id_key = Some id_val) (contents store)) \<le> 1 \<and> unique_key = None \<longrightarrow>
         fst (update_unique id_key id_val obj unique_key store) = Inr () \<and>
         contents (snd (update_unique id_key id_val obj unique_key store)) =
           (if filter (\<lambda>d. d id_key = Some id_val) (contents store) = [] then contents store @ [obj]
            else map (\<lambda>d. if d id_key = Some id_val then d ++ obj else d) (contents store)))) \<and>
   (isl (fst (update_unique id_key id_val obj unique_key store)) \<longrightarrow>
      snd (update_unique id_key id_val obj unique_key store) = store)"
proof (intro conjI impI allI)
  let ?f = "update_unique_func id_key id_val obj unique_key"
  assume r: "running store"
  note d = do_with_db_running [OF r, of ?f]
  show "update_unique id_key id_val obj unique_key store = (Inl AssertionError, store)"
    if "1 < length (filter (\<lambda>d. d id_key = Some id_val) (contents store))"
  proof -
    from that have f: "?f (the_db store) = (Inl AssertionError, the_db store)"
      by (simp add: update_unique_func_def db_count_eq contents_def)
    then have "snd (do_with_db ?f store) = store"
      by (intro do_with_db_unchanged) simp
    with d f show ?thesis by (simp add: update_unique_def prod_eq_iff)
  qed
  show "update_unique id_key id_val obj unique_key store = (Inl AssertionError, store)"
    if "length (filter (\<lambda>d. d id_key = Some id_val) (contents store)) \<le> 1 \<and>
        unique_key = Some k \<and> obj k = Some u \<and> (\<exists>d \<in> set (contents store). d k = Some u)" for k u
  proof -
    from that have f: "?f (the_db store) = (Inl AssertionError, the_db store)"
      by (simp add: update_unique_func_def db_count_eq contents_def db_contains_iff)
    then have "snd (do_with_db ?f store) = store"
      by (intro do_with_db_unchanged) simp
    with d f show ?thesis by (simp add: update_unique_def prod_eq_iff)
  qed
  show "fst (update_unique id_key id_val obj unique_key store) = Inr ()"
    and "contents (snd (update_unique id_key id_val obj unique_key store)) =
           (if filter (\<lambda>d. d id_key = Some id_val) (contents store) = [] then contents store @ [obj]
            else map (\<lambda>d. if d id_key = Some id_val then d ++ obj else d) (contents store))"
    if "length (filter (\<lambda>d. d id_key = Some id_val) (contents store)) \<le> 1 \<and> unique_key = None"
  proof -
    from that have f: "?f (the_db store) =
        (Inr (), snd (db_upsert obj (query_eq id_key id_val) (the_db store)))"
      by (simp add: update_unique_func_def db_count_eq contents_def case_prod_beta)
    with d show "fst (update_unique id_key id_val obj unique_key store) = Inr ()"
      by (simp add: update_unique_def)
    from d f show "contents (snd (update_unique id_key id_val obj unique_key store)) =
           (if filter (\<lambda>d. d id_key = Some id_val) (contents store) = [] then contents store @ [obj]
            else map (\<lambda>d. if d id_key = Some id_val then d ++ obj else d) (contents store))"
      by (simp add: update_unique_def contents_def db_all_upsert query_eq_def [abs_def])
  qed
next
  assume "isl (fst (update_unique id_key id_val obj unique_key store))"
  then show "snd (update_unique id_key id_val obj unique_key store) = store"
    unfolding update_unique_def
    by (intro do_with_db_error_unchanged
          [where func = "update_unique_func id_key id_val obj unique_key"])
       (simp_all add: update_unique_func_error_unchanged)
qed

lemma contents_test_store:
  "contents test_store = [test_obj, test_obj, [''service_id'' \<mapsto> JInt 8]]"
  by (simp add: test_store_def contents_def db_all_def)

lemma test_obj_service_id: "test_obj ''service_id'' = Some (JString ''pancakes'')"
  by (simp add: test_obj_def)

theorem update_unique_checked_witness:
  "running test_store \<and>
   update_unique ''service_id'' (JString ''pancakes'') test_obj None test_store =
     (Inl AssertionError, test_store) \<and>
   update_unique ''service_id'' (JInt 8) test_obj (Some ''service_id'') test_store =
     (Inl AssertionError, test_store) \<and>
   fst (update_unique ''service_id'' (JInt 8) [''something'' \<mapsto> JString ''different''] None test_store) = Inr () \<and>
   contents (snd (update_unique ''service_id'' (JInt 8) [''something'' \<mapsto> JString ''different''] None
      test_store)) =
     [test_obj, test_obj, [''service_id'' \<mapsto> JInt 8, ''something'' \<mapsto> JString ''different'']]"
proof -
  have r: "running test_store" by (simp add: test_store_def)
  note c = contents_test_store test_obj_service_id
  from update_unique_checked [of test_store "''service_id''" "JString ''pancakes''" test_obj None] r
  have a: "update_unique ''service_id'' (JString ''pancakes'') test_obj None test_store =
     (Inl AssertionError, test_store)"
    by (simp add: c)
  from update_unique_checked [of test_store "''service_id''" "JInt 8" test_obj "Some ''service_id''"] r
  have b: "update_unique ''service_id'' (JInt 8) test_obj (Some ''service_id'') test_store =
     (Inl AssertionError, test_store)"
    by (simp add: c)
  from update_unique_checked [of test_store "''service_id''" "JInt 8"
      "[''something'' \<mapsto> JString ''different'']" None] r
  have d: "fst (update_unique ''service_id'' (JInt 8) [''something'' \<mapsto> JString ''different''] None test_store) = Inr () \<and>
   contents (snd (update_unique ''service_id'' (JInt 8) [''something'' \<mapsto> JString ''different''] None
      test_store)) =
     [test_obj, test_obj, [''service_id'' \<mapsto> JInt 8, ''something'' \<mapsto> JString ''different'']]"
    by (simp add: c)
  from r a b d show ?thesis by blast
qed

theorem insert_then_find_by_key_witness:
  "running test_store \<and>
   fst (insert_doc test_obj test_store) = Inr 4 \<and>
   fst (find_by_key ''service_id'' (JString ''pancakes'') (snd (insert_doc test_obj test_store))) =
     Inr [test_obj, test_obj, test_obj]"
proof -
  have r: "running test_store" by (simp add: test_store_def)
  have l: "last_id (the_db test_store) = 3" by (simp add: test_store_def)
  from insert_then_find_by_key [OF r, of test_obj "''service_id''" "JString ''pancakes''"] r
  show ?thesis by (simp add: contents_test_store test_obj_service_id l)
qed

theorem insert_multiple_appends_witness:
  "running test_store \<and>
   fst (insert_multiple (replicate 100 test_obj) test_store) = Inr [4 ..< 104] \<and>
   contents (snd (insert_multiple (replicate 100 test_obj) test_store)) =
     [test_obj, test_obj, [''service_id'' \<mapsto> JInt 8]] @ replicate 100 test_obj"
proof -
  have r: "running test_store" by (simp add: test_store_def)
  have l: "last_id (the_db test_store) = 3" by (simp add: test_store_def)
  from insert_multiple_appends [OF r, of "replicate 100 test_obj"] r
  show ?thesis by (simp add: contents_test_store l)
qed

theorem update_merges_witness:
  "running test_store \<and>
   contents (snd (update ''service_id'' (JInt 8) [''service_id'' \<mapsto> JInt 101] test_store)) =
     [test_obj, test_obj, [''service_id'' \<mapsto> JInt 101]]"
proof -
  have r: "running test_store" by (simp add: test_store_def)
  from update_merges [OF r, of "''service_id''" "JInt 8" "[''service_id'' \<mapsto> JInt 101]"] r
  show ?thesis by (simp add: contents_test_store test_obj_service_id)
qed

theorem purge_empties_witness:
  "running test_store \<and> fst (purge test_store) = Inr () \<and> contents (snd (purge test_store)) = []"
proof -
  have r: "running test_store" by (simp add: test_store_def)
  from purge_empties [OF r] r show ?thesis by simp
qed

section \<open>Properties of the command layer\<close>

subsection \<open>The address codec\<close>

lemma unat_flagged: "s < 128 \<Longrightarrow> unat ((word_of_nat s :: byte) OR 0x80) = 128 + s"
proof -
  assume s: "s < 128"
  then have "unat (word_of_nat s :: byte) = s" by (simp add: unat_byte_small)
  then have "unat ((word_of_nat s :: byte) OR 0x80) = s OR 128"
    by (simp add: unsigned_or_eq)
  also have "\<dots> = 128 + s" using or128 [OF s] by (simp add: or.commute)
  finally show ?thesis .
qed

lemma flag_clear: "s < 128 \<Longrightarrow> (word_of_nat s :: byte) AND 0x80 = 0"
  by (simp add: and128_zero unat_byte_small)

lemma flag_set: "s < 128 \<Longrightarrow> ((word_of_nat s :: byte) OR 0x80) AND 0x80 \<noteq> 0"
  by (simp add: and128_zero unat_flagged)

lemma flag_strip: "s < 128 \<Longrightarrow> unat (((word_of_nat s :: byte) OR 0x80) AND 0x7f) = s"
  by (simp add: unat_and127 unat_flagged)

lemma address_roundtrip:
  assumes "path \<noteq> []" and "list_all (\<lambda>s. s < 128) path"
  shows "\<exists>bs. address_encode path = Inr bs \<and> length bs = length path \<and>
              (\<forall>rest. address_decode (bs @ rest) = Inr (path, rest))"
  using assms
proof (induction path rule: address_encode.induct)
  case 1
  then show ?case by simp
next
  case (2 s)
  then show ?case by (simp add: flag_clear unat_byte_small)
next
  case (3 s v va)
  from "3.prems" have s: "s < 128" and tl: "list_all (\<lambda>s. s < 128) (v # va)" by simp_all
  from "3.IH" [OF s] tl obtain bs where
    e: "address_encode (v # va) = Inr bs" and l: "length bs = length (v # va)" and
    d: "\<And>rest. address_decode (bs @ rest) = Inr (v # va, rest)"
    by auto
  from s e l d show ?case
    by (simp add: flag_set flag_strip)
qed

subsection \<open>Building and parsing a frame\<close>

lemma field_roundtrip:
  assumes "valid_value kind v" and "kind \<noteq> BlobField"
  shows "\<exists>bs. build_field name kind v = Inr bs \<and>
              (\<forall>rest. parse_field kind (bs @ rest) = Inr (v, rest))"
proof (cases kind)
  case ByteField
  with assms(1) obtain n where "v = IntValue n" "n < 256" by (cases v) simp_all
  with ByteField show ?thesis by (simp add: unat_byte_small)
next
  case ObjectIdField
  with assms(1) obtain path where v: "v = IdValue path" and p: "path \<noteq> []" "list_all (\<lambda>s. s < 128) path"
    by (cases v) simp_all
  from address_roundtrip [OF p] obtain bs where
    "address_encode path = Inr bs" "\<And>rest. address_decode (bs @ rest) = Inr (path, rest)"
    by blast
  with ObjectIdField v show ?thesis by simp
next
  case BlobField
  with assms(2) show ?thesis by simp
qed

lemma blob_roundtrip:
  assumes "valid_value BlobField v"
  shows "\<exists>bs. build_field name BlobField v = Inr bs \<and> parse_field BlobField bs = Inr (v, [])"
  using assms by (cases v) simp_all

lemma fields_roundtrip:
  assumes "distinct (map fst fs)" and "blob_last fs" and "fields_valid fs vals"
  shows "\<exists>bs. build_fields fs vals = Inr bs \<and>
              parse_fields fs bs = Inr (vals |` set (map fst fs))"
  using assms
proof (induction fs rule: blob_last.induct)
  case 1
  then show ?case by simp
next
  case (2 f)
  obtain name kind where f: "f = (name, kind)" by (cases f)
  with "2.prems"(3) obtain v where v: "vals name = Some v" and ok: "valid_value kind v"
    by (auto simp: fields_valid_def split: option.splits)
  have r: "Map.empty(name \<mapsto> v) = vals |` {name}"
    using v by (auto simp: restrict_map_def fun_eq_iff)
  show ?case
  proof (cases "kind = BlobField")
    case True
    with blob_roundtrip [of v name] ok obtain bs where
      "build_field name BlobField v = Inr bs" "parse_field BlobField bs = Inr (v, [])"
      by blast
    with True f v r show ?thesis by simp
  next
    case False
    with field_roundtrip [OF ok, of name] obtain bs where
      "build_field name kind v = Inr bs" "\<And>rest. parse_field kind (bs @ rest) = Inr (v, rest)"
      by blast
    from this(1) this(2) [of "[]"] f v r show ?thesis by simp
  qed
next
  case (3 name kind g gs)
  from "3.prems" have nb: "kind \<noteq> BlobField" and bl: "blob_last (g # gs)"
    and di: "distinct (map fst (g # gs))" and fresh: "name \<notin> set (map fst (g # gs))"
    by simp_all
  from "3.prems"(3) obtain v where v: "vals name = Some v" and ok: "valid_value kind v"
    and tl: "fields_valid (g # gs) vals"
    by (auto simp: fields_valid_def split: option.splits)
  from "3.IH" [OF di bl tl] obtain bs' where
    b': "build_fields (g # gs) vals = Inr bs'" and
    p': "parse_fields (g # gs) bs' = Inr (vals |` set (map fst (g # gs)))"
    by blast
  from field_roundtrip [OF ok nb, of name] obtain bs where
    b: "build_field name kind v = Inr bs" and p: "\<And>rest. parse_field kind (bs @ rest) = Inr (v, rest)"
    by blast
  have r: "(vals |` set (map fst (g # gs)))(name \<mapsto> v) = vals |` set (map fst ((name, kind) # g # gs))"
    using v by (auto simp: restrict_map_def fun_eq_iff)
  have "build_fields ((name, kind) # g # gs) vals = Inr (bs @ bs')"
    using v b b' by simp
  moreover have "parse_fields ((name, kind) # g # gs) (bs @ bs') =
      Inr (vals |` set (map fst ((name, kind) # g # gs)))"
    using p [of bs'] p' r by (simp del: parse_fields.simps(2) add: parse_fields.simps(2) [of name kind "g # gs"])
  ultimately show ?case by blast
qed

theorem request_roundtrip:
  assumes "wf_schema fs" and "opcode < 256" and "satisfies opcode fs vals"
  shows "\<exists>bs. build_request opcode fs vals = Inr bs \<and>
              parse_request opcode fs bs = Inr (vals(''opcode'' \<mapsto> IntValue opcode))"
proof -
  from assms(1) have di: "distinct (map fst fs)" and no: "''opcode'' \<notin> set (map fst fs)"
    and bl: "blob_last fs"
    by (simp_all add: wf_schema_def)
  from assms(3) have fv: "fields_valid fs vals"
    and dm: "dom vals \<subseteq> insert ''opcode'' (set (map fst fs))"
    and oc: "vals ''opcode'' = None \<or> vals ''opcode'' = Some (IntValue opcode)"
    by (simp_all add: satisfies_def)
  from fields_roundtrip [OF di bl fv] obtain bs where
    b: "build_fields fs vals = Inr bs" and p: "parse_fields fs bs = Inr (vals |` set (map fst fs))"
    by blast
  have m: "(vals |` set (map fst fs))(''opcode'' \<mapsto> IntValue opcode) = vals(''opcode'' \<mapsto> IntValue opcode)"
  proof (rule ext)
    fix k
    show "((vals |` set (map fst fs))(''opcode'' \<mapsto> IntValue opcode)) k =
          (vals(''opcode'' \<mapsto> IntValue opcode)) k"
      using dm by (cases "vals k") (auto simp: restrict_map_def)
  qed
  have "build_request opcode fs vals = Inr (word_of_nat opcode # bs)"
    using oc b by (auto simp: build_request_def)
  moreover have "parse_request opcode fs (word_of_nat opcode # bs) =
      Inr (vals(''opcode'' \<mapsto> IntValue opcode))"
    using assms(2) p m by (simp add: parse_request_def unat_byte_small)
  ultimately show ?thesis by blast
qed

subsection \<open>The write-value request of the tests\<close>

lemma replicate_10: "replicate 10 x = [x, x, x, x, x, x, x, x, x, x]"
  by (simp add: numeral_eq_Suc)

lemma build_write_value_args:
  "build_request 2 WriteValue_request write_value_args =
     Inr ([2, 0xFF, 0x07, 6, 10] @ replicate 10 0x0F)"
  by (simp add: build_request_def WriteValue_request_def write_value_args_def)

lemma parse_write_value_bytes:
  "parse_request 2 WriteValue_request ([2, 0xFF, 0x07, 6, 10] @ replicate 10 0x0F) =
     Inr write_value_req"
  by (simp add: parse_request_def WriteValue_request_def write_value_req_def write_value_args_def
      fun_upd_twist)

text \<open>
  C1. The write-value request built under opcode 2 from \<open>object_id = [127, 7]\<close>,
  \<open>type = 6\<close>, \<open>size = 10\<close> and ten bytes \<open>0x0F\<close> of data has \<open>0xFF\<close> and \<open>0x07\<close> as
  its second and third byte; the request schema parses those bytes to a mapping with
  \<open>object_id = [127, 7]\<close> and the ten bytes as \<open>data\<close>; and \<open>from_args\<close> on these arguments
  gives a command whose encoded request is that byte string.
\<close>

theorem write_value_variable_id:
  "build (WriteValue_request_schema) write_value_args =
     Inr ([2, 0xFF, 0x07, 6, 10] @ replicate 10 0x0F) \<and>
   take 2 (drop 1 ([2, 0xFF, 0x07, 6, 10] @ replicate 10 (0x0F :: byte))) = [0xFF, 0x07] \<and>
   (\<exists>decoded. parse (WriteValue_request_schema) ([2, 0xFF, 0x07, 6, 10] @ replicate 10 0x0F) =
        Inr decoded \<and>
      decoded ''object_id'' = Some (IdValue [127, 7]) \<and>
      decoded ''data'' = Some (BytesValue (replicate 10 0x0F))) \<and>
   (\<exists>c. from_args WriteValue_request_schema WriteValue_response_schema write_value_args = Inr c \<and>
      fst (encoded_request c) = Inr (Some ([2, 0xFF, 0x07, 6, 10] @ replicate 10 0x0F)))"
proof (intro conjI)
  show b: "build (WriteValue_request_schema) write_value_args =
     Inr ([2, 0xFF, 0x07, 6, 10] @ replicate 10 0x0F)"
    using build_write_value_args by (simp add: WriteValue_request_schema_def)
  show "take 2 (drop 1 ([2, 0xFF, 0x07, 6, 10] @ replicate 10 (0x0F :: byte))) = [0xFF, 0x07]"
    by (simp add: numeral_2_eq_2)
  have "parse (WriteValue_request_schema) ([2, 0xFF, 0x07, 6, 10] @ replicate 10 0x0F) =
      Inr write_value_req"
    using parse_write_value_bytes by (simp add: WriteValue_request_schema_def)
  moreover have "write_value_req ''object_id'' = Some (IdValue [127, 7])"
    and "write_value_req ''data'' = Some (BytesValue (replicate 10 0x0F))"
    by (simp_all add: write_value_req_def write_value_args_def)
  ultimately show "\<exists>decoded. parse (WriteValue_request_schema) ([2, 0xFF, 0x07, 6, 10] @ replicate 10 0x0F) =
        Inr decoded \<and>
      decoded ''object_id'' = Some (IdValue [127, 7]) \<and>
      decoded ''data'' = Some (BytesValue (replicate 10 0x0F))"
    by blast
  from b show "\<exists>c. from_args WriteValue_request_schema WriteValue_response_schema write_value_args = Inr c \<and>
      fst (encoded_request c) = Inr (Some ([2, 0xFF, 0x07, 6, 10] @ replicate 10 0x0F))"
    by (simp add: from_args_def encoded_request_def)
qed

lemma satisfies_write_value_args: "satisfies 2 WriteValue_request write_value_args"
  by (simp add: satisfies_def fields_valid_def WriteValue_request_def write_value_args_def)

lemma satisfies_write_value_req: "satisfies 2 WriteValue_request write_value_req"
  by (simp add: satisfies_def fields_valid_def WriteValue_request_def write_value_req_def
      write_value_args_def)

lemma wf_WriteValue_request: "wf_schema WriteValue_request"
  by (simp add: wf_schema_def WriteValue_request_def)

text \<open>
  C2, the claim as stated fails. The arguments of the tests satisfy the write-value request
  schema and carry no \<open>opcode\<close>; what is parsed from the bytes built from them carries
  \<open>opcode = 2\<close>, so it is not the original mapping.
\<close>

theorem request_roundtrip_counterexample:
  "satisfies 2 WriteValue_request write_value_args \<and>
   build_request 2 WriteValue_request write_value_args =
     Inr ([2, 0xFF, 0x07, 6, 10] @ replicate 10 0x0F) \<and>
   parse_request 2 WriteValue_request ([2, 0xFF, 0x07, 6, 10] @ replicate 10 0x0F) \<noteq>
     Inr write_value_args"
proof -
  have "write_value_req ''opcode'' \<noteq> write_value_args ''opcode''"
    by (simp add: write_value_req_def write_value_args_def)
  then have "write_value_req \<noteq> write_value_args" by metis
  with satisfies_write_value_args build_write_value_args parse_write_value_bytes
  show ?thesis by simp
qed

text \<open>
  C2 as amended. For a well-formed schema, an opcode that fits a byte and values that
  satisfy the schema, \<open>build\<close> succeeds and \<open>parse\<close> of its bytes returns the values with
  \<open>opcode\<close> set to the command's opcode, and no other key added or dropped; that is the
  original mapping exactly when it already carried the opcode.
\<close>

theorem request_roundtrip_with_opcode:
  assumes "wf_schema fs" and "opcode < 256" and "satisfies opcode fs vals"
  shows "\<exists>bs. build_request opcode fs vals = Inr bs \<and>
              parse_request opcode fs bs = Inr (vals(''opcode'' \<mapsto> IntValue opcode)) \<and>
              (vals ''opcode'' = Some (IntValue opcode) \<longrightarrow> parse_request opcode fs bs = Inr vals)"
proof -
  from request_roundtrip [OF assms] obtain bs where
    b: "build_request opcode fs vals = Inr bs" and
    p: "parse_request opcode fs bs = Inr (vals(''opcode'' \<mapsto> IntValue opcode))"
    by blast
  have "parse_request opcode fs bs = Inr vals" if "vals ''opcode'' = Some (IntValue opcode)"
    using p that by (simp add: fun_upd_idem)
  with b p show ?thesis by blast
qed

theorem request_roundtrip_with_opcode_witness:
  "wf_schema WriteValue_request \<and> (2 :: nat) < 256 \<and>
   satisfies 2 WriteValue_request write_value_args \<and>
   satisfies 2 WriteValue_request write_value_req \<and>
   write_value_req ''opcode'' = Some (IntValue 2) \<and>
   (\<exists>bs. build_request 2 WriteValue_request write_value_args = Inr bs \<and>
         parse_request 2 WriteValue_request bs = Inr write_value_req) \<and>
   (\<exists>bs. build_request 2 WriteValue_request write_value_req = Inr bs \<and>
         parse_request 2 WriteValue_request bs = Inr write_value_req)"
proof -
  have lt: "(2 :: nat) < 256" by simp
  have o: "write_value_req ''opcode'' = Some (IntValue 2)" by (simp add: write_value_req_def)
  from request_roundtrip_with_opcode [OF wf_WriteValue_request lt satisfies_write_value_args]
  have a: "\<exists>bs. build_request 2 WriteValue_request write_value_args = Inr bs \<and>
         parse_request 2 WriteValue_request bs = Inr write_value_req"
    by (auto simp: write_value_req_def)
  from request_roundtrip_with_opcode [OF wf_WriteValue_request lt satisfies_write_value_req] o
  have b: "\<exists>bs. build_request 2 WriteValue_request write_value_req = Inr bs \<and>
         parse_request 2 WriteValue_request bs = Inr write_value_req"
    by auto
  from wf_WriteValue_request lt satisfies_write_value_args satisfies_write_value_req o a b
  show ?thesis by blast
qed

subsection \<open>Absent sides of a command\<close>

lemma request_absent_reads:
  "enc_request c = None \<Longrightarrow> dec_request c = None \<Longrightarrow>
     encoded_request c = (Inr None, c) \<and> decoded_request c = (Inr None, c)"
  by (simp add: encoded_request_def decoded_request_def)

lemma response_absent_reads:
  "enc_response c = None \<Longrightarrow> dec_response c = None \<Longrightarrow>
     encoded_response c = (Inr None, c) \<and> decoded_response c = (Inr None, c)"
  by (simp add: encoded_response_def decoded_response_def)

lemma response_reads_keep_request:
  "enc_request (snd (encoded_response c)) = enc_request c \<and>
   dec_request (snd (encoded_response c)) = dec_request c \<and>
   enc_request (snd (decoded_response c)) = enc_request c \<and>
   dec_request (snd (decoded_response c)) = dec_request c"
  by (simp add: encoded_response_def decoded_response_def split: option.splits sum.splits)

lemma request_reads_keep_response:
  "enc_response (snd (encoded_request c)) = enc_response c \<and>
   dec_response (snd (encoded_request c)) = dec_response c \<and>
   enc_response (snd (decoded_request c)) = enc_response c \<and>
   dec_response (snd (decoded_request c)) = dec_response c"
  by (simp add: encoded_request_def decoded_request_def split: option.splits sum.splits)

text \<open>
  C8. A command built by \<open>from_encoded\<close> or \<open>from_decoded\<close> with no request reads its
  request as absent in both forms, also after its response was read in either form; the
  same holds for the response of a command built with no response, and of a command built
  by \<open>from_args\<close>, which takes a request only. Reading an absent side changes nothing.
\<close>

theorem absent_side_reads_absent:
  "(\<forall>c \<in> {from_encoded rq rs None resp_bytes, from_decoded rq rs None resp_values,
            snd (encoded_response (from_encoded rq rs None resp_bytes)),
            snd (decoded_response (from_encoded rq rs None resp_bytes)),
            snd (encoded_response (from_decoded rq rs None resp_values)),
            snd (decoded_response (from_decoded rq rs None resp_values))}.
      encoded_request c = (Inr None, c) \<and> decoded_request c = (Inr None, c)) \<and>
   (\<forall>c \<in> {from_encoded rq rs req_bytes None, from_decoded rq rs req_values None,
            snd (encoded_request (from_encoded rq rs req_bytes None)),
            snd (decoded_request (from_encoded rq rs req_bytes None)),
            snd (encoded_request (from_decoded rq rs req_values None)),
            snd (decoded_request (from_decoded rq rs req_values None))}.
      encoded_response c = (Inr None, c) \<and> decoded_response c = (Inr None, c)) \<and>
   (\<forall>c. from_args rq rs flds = Inr c \<longrightarrow>
      encoded_response c = (Inr None, c) \<and> decoded_response c = (Inr None, c) \<and>
      encoded_response (snd (encoded_request c)) = (Inr None, snd (encoded_request c)) \<and>
      decoded_response (snd (decoded_request c)) = (Inr None, snd (decoded_request c)))"
proof (intro conjI ballI allI impI)
  fix c
  assume "c \<in> {from_encoded rq rs None resp_bytes, from_decoded rq rs None resp_values,
            snd (encoded_response (from_encoded rq rs None resp_bytes)),
            snd (decoded_response (from_encoded rq rs None resp_bytes)),
            snd (encoded_response (from_decoded rq rs None resp_values)),
            snd (decoded_response (from_decoded rq rs None resp_values))}"
  then have "enc_request c = None \<and> dec_request c = None"
    by (auto simp: response_reads_keep_request) (simp_all add: from_encoded_def from_decoded_def)
  then show "encoded_request c = (Inr None, c)" and "decoded_request c = (Inr None, c)"
    by (simp_all add: request_absent_reads)
next
  fix c
  assume "c \<in> {from_encoded rq rs req_bytes None, from_decoded rq rs req_values None,
            snd (encoded_request (from_encoded rq rs req_bytes None)),
            snd (decoded_request (from_encoded rq rs req_bytes None)),
            snd (encoded_request (from_decoded rq rs req_values None)),
            snd (decoded_request (from_decoded rq rs req_values None))}"
  then have "enc_response c = None \<and> dec_response c = None"
    by (auto simp: request_reads_keep_response) (simp_all add: from_encoded_def from_decoded_def)
  then show "encoded_response c = (Inr None, c)" and "decoded_response c = (Inr None, c)"
    by (simp_all add: response_absent_reads)
next
  fix c
  assume "from_args rq rs flds = Inr c"
  then have a: "enc_response c = None \<and> dec_response c = None"
    by (auto simp: from_args_def split: sum.splits)
  then show "encoded_response c = (Inr None, c)" and "decoded_response c = (Inr None, c)"
    by (simp_all add: response_absent_reads)
  from a show "encoded_response (snd (encoded_request c)) = (Inr None, snd (encoded_request c))"
    and "decoded_response (snd (decoded_request c)) = (Inr None, snd (decoded_request c))"
    by (simp_all add: response_absent_reads request_reads_keep_response)
qed

theorem absent_side_reads_absent_witness:
  "encoded_request (from_encoded WriteValue_request_schema WriteValue_response_schema None
      (Some ([0, 6, 10] @ replicate 10 0x0F))) =
     (Inr None, from_encoded WriteValue_request_schema WriteValue_response_schema None
      (Some ([0, 6, 10] @ replicate 10 0x0F))) \<and>
   fst (decoded_request (snd (decoded_response
      (from_encoded WriteValue_request_schema WriteValue_response_schema None
         (Some ([0, 6, 10] @ replicate 10 0x0F)))))) = Inr None \<and>
   fst (encoded_response (from_decoded WriteValue_request_schema WriteValue_response_schema
      (Some write_value_req) None)) = Inr None \<and>
   (\<exists>c. from_args WriteValue_request_schema WriteValue_response_schema write_value_args = Inr c \<and>
      encoded_response c = (Inr None, c) \<and> decoded_response c = (Inr None, c))"
proof -
  let ?rq = WriteValue_request_schema and ?rs = WriteValue_response_schema
  let ?bs = "Some ([0, 6, 10] @ replicate 10 (0x0F :: byte))"
  note th = absent_side_reads_absent [where rq = ?rq and rs = ?rs and resp_bytes = ?bs
      and resp_values = None and req_bytes = None and req_values = "Some write_value_req"
      and flds = write_value_args]
  from th have 1: "encoded_request (from_encoded ?rq ?rs None ?bs) =
      (Inr None, from_encoded ?rq ?rs None ?bs)"
    by blast
  from th have "decoded_request (snd (decoded_response (from_encoded ?rq ?rs None ?bs))) =
      (Inr None, snd (decoded_response (from_encoded ?rq ?rs None ?bs)))"
    by blast
  then have 2: "fst (decoded_request (snd (decoded_response (from_encoded ?rq ?rs None ?bs)))) = Inr None"
    by simp
  from th have "encoded_response (from_decoded ?rq ?rs (Some write_value_req) None) =
      (Inr None, from_decoded ?rq ?rs (Some write_value_req) None)"
    by blast
  then have 3: "fst (encoded_response (from_decoded ?rq ?rs (Some write_value_req) None)) = Inr None"
    by simp
  obtain c where c: "from_args ?rq ?rs write_value_args = Inr c"
    using build_write_value_args by (simp add: from_args_def WriteValue_request_schema_def)
  with th have "encoded_response c = (Inr None, c) \<and> decoded_response c = (Inr None, c)"
    by blast
  with c have 4: "\<exists>c. from_args ?rq ?rs write_value_args = Inr c \<and>
      encoded_response c = (Inr None, c) \<and> decoded_response c = (Inr None, c)"
    by blast
  from 1 2 3 4 show ?thesis by blast
qed

subsection \<open>Rendering bytes\<close>

lemma index_of_nth: "distinct xs \<Longrightarrow> n < length xs \<Longrightarrow> index_of xs (xs ! n) = Some n"
proof (induction xs arbitrary: n)
  case Nil
  then show ?case by simp
next
  case (Cons x xs)
  show ?case
  proof (cases n)
    case 0
    then show ?thesis by simp
  next
    case (Suc m)
    with Cons.prems have "m < length xs" "distinct xs" "xs ! m \<noteq> x"
      by (auto simp: nth_mem)
    with Cons.IH [of m] Suc show ?thesis by auto
  qed
qed

lemma hex_value_hex_digit: "n < 16 \<Longrightarrow> hex_value (hex_digit n) = Some n"
  unfolding hex_value_def hex_digit_def by (rule index_of_nth) simp_all

lemma hex_digit_in: "n < 16 \<Longrightarrow> hex_digit n \<in> set ''0123456789abcdef''"
  unfolding hex_digit_def by (rule nth_mem) simp

lemma byte_halves:
  "unat (b :: byte) div 16 < 16 \<and> unat b mod 16 < 16 \<and>
   word_of_nat (16 * (unat b div 16) + unat b mod 16) = b"
proof -
  have "unat b < 256" using unsigned_less [of b] by simp
  then have "unat b div 16 < 16" by (simp add: less_mult_imp_div_less)
  moreover have "16 * (unat b div 16) + unat b mod 16 = unat b" by simp
  ultimately show ?thesis by simp
qed

lemma unhexlify_hexlify: "unhexlify (hexlify bs) = Some bs"
proof (induction bs)
  case Nil
  then show ?case by (simp add: hexlify_def)
next
  case (Cons b bs)
  have "hexlify (b # bs) = hex_digit (unat b div 16) # hex_digit (unat b mod 16) # hexlify bs"
    by (simp add: hexlify_def)
  with Cons show ?case
    using byte_halves [of b] by (simp add: hex_value_hex_digit del: of_nat_add of_nat_mult)
qed

lemma length_hexlify: "length (hexlify bs) = 2 * length bs"
  by (induction bs) (simp_all add: hexlify_def)

lemma hexlify_digits: "list_all (\<lambda>c. c \<in> set ''0123456789abcdef'') (hexlify bs)"
proof (induction bs)
  case Nil
  then show ?case by (simp add: hexlify_def)
next
  case (Cons b bs)
  have "hexlify (b # bs) = hex_digit (unat b div 16) # hex_digit (unat b mod 16) # hexlify bs"
    by (simp add: hexlify_def)
  with Cons show ?case
    using byte_halves [of b] hex_digit_in [of "unat b div 16"] hex_digit_in [of "unat b mod 16"]
    by simp
qed

text \<open>
  C9. \<open>_pretty_raw\<close> passes an absent value through and renders a byte string as two
  digits per byte and nothing else, every digit one of \<open>0123456789abcdef\<close>, from which the
  bytes can be read back; the bytes \<open>0xde 0xad\<close> are rendered as \<open>dead\<close>.
\<close>

theorem pretty_raw_hex:
  "pretty_raw None = None \<and>
   pretty_raw (Some bs) = Some (hexlify bs) \<and>
   length (hexlify bs) = 2 * length bs \<and>
   list_all (\<lambda>c. c \<in> set ''0123456789abcdef'') (hexlify bs) \<and>
   unhexlify (hexlify bs) = Some bs \<and>
   pretty_raw (Some [0xde, 0xad]) = Some ''dead''"
proof -
  have "hexlify [0xde, 0xad] = ''dead''"
    by (simp add: hexlify_def hex_digit_def)
  then have "pretty_raw (Some [0xde, 0xad]) = Some ''dead''"
    by (simp add: pretty_raw_def)
  moreover have "pretty_raw None = None" and "pretty_raw (Some bs) = Some (hexlify bs)"
    by (simp_all add: pretty_raw_def)
  ultimately show ?thesis
    using length_hexlify [of bs] hexlify_digits [of bs] unhexlify_hexlify [of bs] by blast
qed


end
